theory Spec2Isabelle
  imports Main "HOL-Library.Multiset"
begin

section \<open>Python strings and path helpers\<close>

text \<open>
  Text is a \<^typ>\<open>string\<close>; a character stands for a code point below 256. The
  helpers follow Python's \<^verbatim>\<open>str.isspace\<close>, \<^verbatim>\<open>str.strip\<close>, \<^verbatim>\<open>str.lower\<close>,
  \<^verbatim>\<open>str.rfind\<close>, \<^verbatim>\<open>str(int)\<close> and the POSIX \<^verbatim>\<open>os.path.splitext\<close> on that range.
\<close>

definition py_isspace :: "char \<Rightarrow> bool" where
  "py_isspace c =
     (let n = of_char c :: nat
      in (9 \<le> n \<and> n \<le> 13) \<or> (28 \<le> n \<and> n \<le> 32) \<or> n = 133 \<or> n = 160)"

definition py_strip :: "string \<Rightarrow> string" where
  "py_strip s = rev (dropWhile py_isspace (rev (dropWhile py_isspace s)))"

definition py_lower_char :: "char \<Rightarrow> char" where
  "py_lower_char c =
     (let n = of_char c :: nat
      in if (65 \<le> n \<and> n \<le> 90) \<or> (192 \<le> n \<and> n \<le> 222 \<and> n \<noteq> 215)
         then char_of (n + 32) else c)"

definition py_lower :: "string \<Rightarrow> string" where
  "py_lower s = map py_lower_char s"

text \<open>\<^verbatim>\<open>s.rfind(c)\<close>: the index of the last occurrence of \<open>c\<close>, or \<open>-1\<close>.\<close>

definition rfind :: "char \<Rightarrow> string \<Rightarrow> int" where
  "rfind c s =
     (if c \<in> set s
      then int (length s) - 1 - int (length (takeWhile (\<lambda>x. x \<noteq> c) (rev s)))
      else - 1)"

text \<open>\<^verbatim>\<open>s.rsplit(".", 1)[1]\<close>, read only when \<open>s\<close> holds a dot: the text after the last dot.\<close>

definition rsplit_dot_last :: "string \<Rightarrow> string" where
  "rsplit_dot_last s = rev (takeWhile (\<lambda>x. x \<noteq> CHR ''.'') (rev s))"

text \<open>
  \<^verbatim>\<open>os.path.splitext\<close> (posixpath): the extension starts at the last dot, when that dot
  comes after the last \<open>/\<close> and some character between them is not a dot.
\<close>

definition splitext :: "string \<Rightarrow> string \<times> string" where
  "splitext p =
     (let sepIndex = rfind CHR ''/'' p;
          dotIndex = rfind CHR ''.'' p
      in if dotIndex > sepIndex \<and>
            list_ex (\<lambda>x. x \<noteq> CHR ''.'')
              (take (nat dotIndex - nat (sepIndex + 1)) (drop (nat (sepIndex + 1)) p))
         then (take (nat dotIndex) p, drop (nat dotIndex) p)
         else (p, []))"

definition digit_char :: "nat \<Rightarrow> char" where
  "digit_char d = ''0123456789'' ! d"

fun str_nat :: "nat \<Rightarrow> string" where
  "str_nat n = (if n < 10 then [digit_char n] else str_nat (n div 10) @ [digit_char (n mod 10)])"

declare str_nat.simps [simp del]

definition str_int :: "int \<Rightarrow> string" where
  "str_int i = (if i < 0 then CHR ''-'' # str_nat (nat (- i)) else str_nat (nat i))"

section \<open>Persistence layer\<close>

text \<open>
  The four \<^verbatim>\<open>db.Model\<close> classes of \<^verbatim>\<open>app.py\<close>. Primary keys are naturals, a
  \<^verbatim>\<open>DateTime\<close> is an integer count of clock ticks. A table is the list of its rows in
  insertion order.
\<close>

record User =
  User_id :: nat
  User_username :: string
  User_email :: string
  User_password_hash :: string
  User_is_admin :: bool
  User_blocked :: bool
  User_avatar_url :: string
  User_created_at :: int

record Post =
  Post_id :: nat
  Post_content :: string
  Post_image_url :: string
  Post_user_id :: nat
  Post_created_at :: int
  Post_is_deleted :: bool

record Comment =
  Comment_id :: nat
  Comment_content :: string
  Comment_user_id :: nat
  Comment_post_id :: nat
  Comment_created_at :: int
  Comment_is_deleted :: bool

record Like =
  Like_id :: nat
  Like_user_id :: nat
  Like_post_id :: nat
  Like_created_at :: int

text \<open>
  The state a request handler reads and writes: the four tables, the files under
  \<^verbatim>\<open>UPLOAD_DIR\<close> (file name and contents), and the user id held by the requesting
  client's session (\<^verbatim>\<open>login_user\<close> stores it, \<^verbatim>\<open>load_user\<close> reads it back).
\<close>

record state =
  users :: "User list"
  posts :: "Post list"
  comments :: "Comment list"
  likes :: "Like list"
  uploads :: "(string \<times> string) list"
  session :: "nat option"

text \<open>
  What \<^verbatim>\<open>app.py\<close> takes from outside: the three settings of \<^verbatim>\<open>config.py\<close> it reads, and
  the werkzeug functions it imports, which are parameters of the model.
\<close>

record app_env =
  ADMIN_USERNAME :: string
  ADMIN_PASSWORD :: string
  ADMIN_EMAIL :: string
  generate_password_hash :: "string \<Rightarrow> string"
  check_password_hash :: "string \<Rightarrow> string \<Rightarrow> bool"
  secure_filename :: "string \<Rightarrow> string"

datatype error = IntegrityError | OverflowError

text \<open>A fresh primary key: one more than the largest key in the table (1 for an empty table).\<close>

definition next_id :: "nat list \<Rightarrow> nat" where
  "next_id ids = Suc (fold max ids 0)"

text \<open>
  \<^verbatim>\<open>db.session.add(row); db.session.commit()\<close>. The commit raises \<^verbatim>\<open>IntegrityError\<close>
  and stores nothing when the row breaks a \<^verbatim>\<open>unique=True\<close> column or the
  \<^verbatim>\<open>uq_user_post_like\<close> constraint. Column defaults are filled in here.
\<close>

definition add_user :: "string \<Rightarrow> string \<Rightarrow> string \<Rightarrow> bool \<Rightarrow> int \<Rightarrow> state \<Rightarrow> error + User \<times> state" where
  "add_user username email password_hash is_admin now s =
     (if list_ex (\<lambda>u. User_username u = username \<or> User_email u = email) (users s)
      then Inl IntegrityError
      else
        let user = \<lparr>User_id = next_id (map User_id (users s)), User_username = username,
                     User_email = email, User_password_hash = password_hash,
                     User_is_admin = is_admin, User_blocked = False, User_avatar_url = [],
                     User_created_at = now\<rparr>
        in Inr (user, s\<lparr>users := users s @ [user]\<rparr>))"

definition add_post :: "string \<Rightarrow> string \<Rightarrow> nat \<Rightarrow> int \<Rightarrow> state \<Rightarrow> state" where
  "add_post content image_url user_id now s =
     s\<lparr>posts := posts s @
        [\<lparr>Post_id = next_id (map Post_id (posts s)), Post_content = content,
          Post_image_url = image_url, Post_user_id = user_id, Post_created_at = now,
          Post_is_deleted = False\<rparr>]\<rparr>"

definition add_like :: "nat \<Rightarrow> nat \<Rightarrow> int \<Rightarrow> state \<Rightarrow> error + state" where
  "add_like user_id post_id now s =
     (if list_ex (\<lambda>l. Like_user_id l = user_id \<and> Like_post_id l = post_id) (likes s)
      then Inl IntegrityError
      else Inr (s\<lparr>likes := likes s @
        [\<lparr>Like_id = next_id (map Like_id (likes s)), Like_user_id = user_id,
          Like_post_id = post_id, Like_created_at = now\<rparr>]\<rparr>))"

text \<open>\<^verbatim>\<open>db.session.delete(like); db.session.commit()\<close>: the row with that key goes.\<close>

definition delete_like :: "Like \<Rightarrow> state \<Rightarrow> state" where
  "delete_like existing s = s\<lparr>likes := filter (\<lambda>l. Like_id l \<noteq> Like_id existing) (likes s)\<rparr>"

text \<open>\<^verbatim>\<open>len(post.likes)\<close> after a commit: the rows of the like table that point at the post.\<close>

definition post_likes :: "state \<Rightarrow> nat \<Rightarrow> Like list" where
  "post_likes s post_id = filter (\<lambda>l. Like_post_id l = post_id) (likes s)"

definition load_user :: "state \<Rightarrow> nat \<Rightarrow> User option" where
  "load_user s user_id = find (\<lambda>u. User_id u = user_id) (users s)"

text \<open>\<^verbatim>\<open>current_user\<close>: the user the session names, or nobody (the anonymous user).\<close>

definition current_user :: "state \<Rightarrow> User option" where
  "current_user s = (case session s of None \<Rightarrow> None | Some uid \<Rightarrow> load_user s uid)"

definition login_user :: "User \<Rightarrow> state \<Rightarrow> state" where
  "login_user user s = s\<lparr>session := Some (User_id user)\<rparr>"

section \<open>Requests and responses\<close>

datatype http_verb = GET | POST

record FileStorage =
  filename :: string
  stream :: string

text \<open>
  \<^verbatim>\<open>flask.request\<close>: the method, the form fields and the uploaded files. A handler's
  clock readings arrive with the request as extra arguments.
\<close>

record request =
  request_method :: http_verb
  form :: "(string \<times> string) list"
  files :: "(string \<times> FileStorage) list"

text \<open>\<^verbatim>\<open>request.form.get(k) or ""\<close>\<close>

definition form_get :: "request \<Rightarrow> string \<Rightarrow> string" where
  "form_get req k = (case map_of (form req) k of None \<Rightarrow> [] | Some v \<Rightarrow> v)"

text \<open>The truth value of a \<^verbatim>\<open>FileStorage\<close> is that of its file name; \<^verbatim>\<open>None\<close> is false.\<close>

definition file_truthy :: "FileStorage option \<Rightarrow> bool" where
  "file_truthy f = (case f of None \<Rightarrow> False | Some fs \<Rightarrow> filename fs \<noteq> [])"

datatype json_value = JBool bool | JInt int | JStr string

text \<open>
  What a handler returns: a redirect to an endpoint with the message it flashed, a rendered
  template with the posts handed to it, a JSON body with its status, \<^verbatim>\<open>abort(404)\<close>,
  the redirect of \<^verbatim>\<open>login_required\<close> for an anonymous caller, or an exception nobody
  catches.
\<close>

datatype response =
    Redirect string "(string \<times> string) list"
  | RenderTemplate string "Post list"
  | Jsonify "(string \<times> json_value) list" nat
  | Abort nat
  | Unauthorized
  | Raised error

section \<open>Media intake\<close>

definition ALLOWED_IMAGE_EXTENSIONS :: "string set" where
  "ALLOWED_IMAGE_EXTENSIONS = {''png'', ''jpg'', ''jpeg'', ''gif'', ''webp''}"

definition allowed_image :: "string \<Rightarrow> bool" where
  "allowed_image fname =
     (CHR ''.'' \<in> set fname \<and> py_lower (rsplit_dot_last fname) \<in> ALLOWED_IMAGE_EXTENSIONS)"

text \<open>
  \<open>ts\<close> is the value of \<^verbatim>\<open>int(datetime.utcnow().timestamp())\<close> when the call runs.
  \<^verbatim>\<open>file_storage.save(path)\<close> writes the file under its new name, over any file of that
  name.
\<close>

definition safe_name :: "string \<Rightarrow> int \<Rightarrow> string" where
  "safe_name fname ts = (case splitext fname of (name, ext) \<Rightarrow> name @ ''_'' @ str_int ts @ ext)"

definition save_file :: "string \<Rightarrow> string \<Rightarrow> (string \<times> string) list \<Rightarrow> (string \<times> string) list" where
  "save_file path data fs = (path, data) # filter (\<lambda>kv. fst kv \<noteq> path) fs"

definition save_image :: "app_env \<Rightarrow> FileStorage option \<Rightarrow> int \<Rightarrow> state \<Rightarrow> string \<times> state" where
  "save_image env file_storage ts s =
     (case file_storage of
        None \<Rightarrow> ([], s)
      | Some fs \<Rightarrow>
          if filename fs = [] then ([], s)
          else
            let fname = secure_filename env (filename fs)
            in if \<not> allowed_image fname then ([], s)
               else (''/static/uploads/'' @ safe_name fname ts,
                     s\<lparr>uploads := save_file (safe_name fname ts) (stream fs) (uploads s)\<rparr>))"

section \<open>Request handlers\<close>

text \<open>\<^verbatim>\<open>index\<close>: the feed. \<open>order_by(Post.created_at.desc())\<close> is a sort on the negated time.\<close>

definition feed :: "state \<Rightarrow> Post list" where
  "feed s = sort_key (\<lambda>p. - Post_created_at p) (filter (\<lambda>p. \<not> Post_is_deleted p) (posts s))"

definition index :: "state \<Rightarrow> response \<times> state" where
  "index s =
     (case current_user s of
        None \<Rightarrow> (Redirect ''login'' [], s)
      | Some _ \<Rightarrow> (RenderTemplate ''index.html'' (feed s), s))"

text \<open>The form fields as \<^verbatim>\<open>register\<close> and \<^verbatim>\<open>login\<close> read them.\<close>

definition form_username :: "request \<Rightarrow> string" where
  "form_username req = py_strip (form_get req ''username'')"

definition form_email :: "request \<Rightarrow> string" where
  "form_email req = py_lower (py_strip (form_get req ''email''))"

definition form_password :: "request \<Rightarrow> string" where
  "form_password req = form_get req ''password''"

definition form_role :: "request \<Rightarrow> string" where
  "form_role req =
     py_strip (if form_get req ''role'' = [] then ''user'' else form_get req ''role'')"

definition register :: "app_env \<Rightarrow> request \<Rightarrow> int \<Rightarrow> state \<Rightarrow> response \<times> state" where
  "register env req now s =
     (if request_method req = POST then
        let username = form_username req;
            email = form_email req;
            password = form_password req
        in if username = [] \<or> email = [] \<or> password = []
           then (Redirect ''register'' [(''All fields are required.'', ''error'')], s)
           else if find (\<lambda>u. User_username u = username \<or> User_email u = email) (users s) \<noteq> None
           then (Redirect ''register'' [(''Username or Email already exists.'', ''error'')], s)
           else
             (case add_user username email (generate_password_hash env password) False now s of
                Inl e \<Rightarrow> (Raised e, s)
              | Inr (user, s') \<Rightarrow>
                  (Redirect ''login'' [(''Registration successful. Please login.'', ''success'')], s'))
      else (RenderTemplate ''register.html'' [], s))"

text \<open>Lines 155 to 163 of \<^verbatim>\<open>login\<close>: the check of the password and of the blocked flag.\<close>

definition login_verify :: "app_env \<Rightarrow> User option \<Rightarrow> string \<Rightarrow> state \<Rightarrow> response \<times> state" where
  "login_verify env user password s =
     (case user of
        None \<Rightarrow> (Redirect ''login'' [(''Invalid username or password.'', ''error'')], s)
      | Some u \<Rightarrow>
          if check_password_hash env (User_password_hash u) password then
            if User_blocked u \<and> \<not> User_is_admin u
            then (Redirect ''login'' [(''Your account is blocked. Contact admin.'', ''error'')], s)
            else (Redirect ''index'' [(''Login successful.'', ''success'')], login_user u s)
          else (Redirect ''login'' [(''Invalid username or password.'', ''error'')], s))"

definition login :: "app_env \<Rightarrow> request \<Rightarrow> int \<Rightarrow> state \<Rightarrow> response \<times> state" where
  "login env req now s =
     (if request_method req = POST then
        let username = form_username req;
            password = form_password req;
            role = form_role req
        in if role = ''admin'' then
             if username \<noteq> ADMIN_USERNAME env
             then (Redirect ''login'' [(''Invalid admin credentials.'', ''error'')], s)
             else
               (case find (\<lambda>u. User_username u = ADMIN_USERNAME env) (users s) of
                  Some u \<Rightarrow> login_verify env (Some u) password s
                | None \<Rightarrow>
                    (case add_user (ADMIN_USERNAME env) (ADMIN_EMAIL env)
                            (generate_password_hash env (ADMIN_PASSWORD env)) True now s of
                       Inl e \<Rightarrow> (Raised e, s)
                     | Inr (u, s') \<Rightarrow> login_verify env (Some u) password s'))
           else login_verify env (find (\<lambda>u. User_username u = username) (users s)) password s
      else (RenderTemplate ''login.html'' [], s))"

text \<open>
  \<^verbatim>\<open>create_post\<close>, behind \<^verbatim>\<open>login_required\<close>. \<open>ts\<close> is the clock reading of
  \<^verbatim>\<open>save_image\<close>, \<open>now\<close> the one that fills \<^verbatim>\<open>created_at\<close>.
\<close>

definition create_post :: "app_env \<Rightarrow> request \<Rightarrow> int \<Rightarrow> int \<Rightarrow> state \<Rightarrow> response \<times> state" where
  "create_post env req ts now s =
     (case current_user s of
        None \<Rightarrow> (Unauthorized, s)
      | Some cu \<Rightarrow>
          if request_method req = POST then
            let content = py_strip (form_get req ''content'');
                image = map_of (files req) ''image''
            in if content = [] \<and> \<not> file_truthy image
               then (Redirect ''create_post'' [(''Write something or add an image.'', ''error'')], s)
               else
                 (case (if file_truthy image then save_image env image ts s else ([], s)) of
                    (image_url, s1) \<Rightarrow>
                      (Redirect ''index'' [(''Post created.'', ''success'')],
                       add_post content image_url (User_id cu) now s1))
          else (RenderTemplate ''create_post.html'' [], s))"

text \<open>
  \<^verbatim>\<open>Post.query.get_or_404(post_id)\<close>: the row with that key. The key column is an
  INTEGER, whose values are below \<open>2 ^ 63\<close>, and the route converter \<^verbatim>\<open><int:post_id>\<close>
  passes any natural number; an id the column cannot hold names no row, and binding it to
  the query raises \<^verbatim>\<open>OverflowError\<close>, which no handler catches. Any other id without a
  row is \<^verbatim>\<open>abort(404)\<close>.
\<close>

definition get_or_404 :: "state \<Rightarrow> nat \<Rightarrow> response + Post" where
  "get_or_404 s post_id =
     (case find (\<lambda>p. Post_id p = post_id) (posts s) of
        Some post \<Rightarrow> Inr post
      | None \<Rightarrow> Inl (if 2 ^ 63 \<le> post_id then Raised OverflowError else Abort 404))"

text \<open>\<^verbatim>\<open>like_post\<close>, behind \<^verbatim>\<open>login_required\<close>; the route takes POST only.\<close>

definition like_response :: "bool \<Rightarrow> nat \<Rightarrow> response" where
  "like_response liked n =
     Jsonify [(''ok'', JBool True), (''liked'', JBool liked), (''count'', JInt (int n))] 200"

definition like_post :: "nat \<Rightarrow> int \<Rightarrow> state \<Rightarrow> response \<times> state" where
  "like_post post_id now s =
     (case current_user s of
        None \<Rightarrow> (Unauthorized, s)
      | Some cu \<Rightarrow>
          (case get_or_404 s post_id of
             Inl r \<Rightarrow> (r, s)
           | Inr post \<Rightarrow>
               if Post_is_deleted post
               then (Jsonify [(''ok'', JBool False), (''message'', JStr ''Post removed'')] 400, s)
               else
                 (case find (\<lambda>l. Like_user_id l = User_id cu \<and> Like_post_id l = post_id) (likes s) of
                    Some existing \<Rightarrow>
                      (let s' = delete_like existing s
                       in (like_response False (length (post_likes s' post_id)), s'))
                  | None \<Rightarrow>
                      (case add_like (User_id cu) post_id now s of
                         Inl e \<Rightarrow> (Raised e, s)
                       | Inr s' \<Rightarrow> (like_response True (length (post_likes s' post_id)), s')))))"

definition admin_only :: "state \<Rightarrow> bool" where
  "admin_only s = (case current_user s of None \<Rightarrow> False | Some cu \<Rightarrow> User_is_admin cu)"

text \<open>
  \<^verbatim>\<open>post.is_deleted = v; db.session.commit()\<close> on the row \<^verbatim>\<open>Post.query.get\<close> found:
  an update of the row with that key.
\<close>

definition set_post_deleted :: "nat \<Rightarrow> bool \<Rightarrow> state \<Rightarrow> state" where
  "set_post_deleted post_id v s =
     s\<lparr>posts := map (\<lambda>p. if Post_id p = post_id then p\<lparr>Post_is_deleted := v\<rparr> else p) (posts s)\<rparr>"

definition admin_delete_post :: "nat \<Rightarrow> state \<Rightarrow> response \<times> state" where
  "admin_delete_post post_id s =
     (case current_user s of
        None \<Rightarrow> (Unauthorized, s)
      | Some cu \<Rightarrow>
          if \<not> admin_only s then (Jsonify [(''ok'', JBool False)] 403, s)
          else
            (case get_or_404 s post_id of
               Inl r \<Rightarrow> (r, s)
             | Inr post \<Rightarrow> (Jsonify [(''ok'', JBool True)] 200, set_post_deleted post_id True s)))"

definition admin_restore_post :: "nat \<Rightarrow> state \<Rightarrow> response \<times> state" where
  "admin_restore_post post_id s =
     (case current_user s of
        None \<Rightarrow> (Unauthorized, s)
      | Some cu \<Rightarrow>
          if \<not> admin_only s then (Jsonify [(''ok'', JBool False)] 403, s)
          else
            (case get_or_404 s post_id of
               Inl r \<Rightarrow> (r, s)
             | Inr post \<Rightarrow> (Jsonify [(''ok'', JBool True)] 200, set_post_deleted post_id False s)))"

section \<open>Sample data\<close>

text \<open>
  A configuration with the defaults of \<^verbatim>\<open>config.py\<close>. Its hash prefixes the password
  and its \<^verbatim>\<open>secure_filename\<close> returns the name as it is, which is what werkzeug's does
  on a name of letters and digits with inner dots.
\<close>

definition example_env :: app_env where
  "example_env =
     \<lparr>ADMIN_USERNAME = ''admin'', ADMIN_PASSWORD = ''Admin@12345'',
      ADMIN_EMAIL = ''admin@amrita.edu'',
      generate_password_hash = (\<lambda>p. ''hash:'' @ p),
      check_password_hash = (\<lambda>h p. h = ''hash:'' @ p),
      secure_filename = (\<lambda>f. f)\<rparr>"

definition alice :: User where
  "alice = \<lparr>User_id = 1, User_username = ''alice'', User_email = ''a@x.com'',
            User_password_hash = ''hash:pw1'', User_is_admin = False, User_blocked = False,
            User_avatar_url = [], User_created_at = 100\<rparr>"

definition hello :: Post where
  "hello = \<lparr>Post_id = 1, Post_content = ''hello'', Post_image_url = [], Post_user_id = 1,
            Post_created_at = 200, Post_is_deleted = False\<rparr>"

definition removed :: Post where
  "removed = \<lparr>Post_id = 2, Post_content = ''old'', Post_image_url = [], Post_user_id = 1,
              Post_created_at = 150, Post_is_deleted = True\<rparr>"

text \<open>Alice is logged in; one of her two posts is soft-deleted.\<close>

definition s_alice :: state where
  "s_alice = \<lparr>users = [alice], posts = [hello, removed], comments = [], likes = [],
              uploads = [], session = Some 1\<rparr>"

definition root :: User where
  "root = \<lparr>User_id = 2, User_username = ''admin'', User_email = ''admin@amrita.edu'',
           User_password_hash = ''hash:Admin@12345'', User_is_admin = True,
           User_blocked = False, User_avatar_url = [], User_created_at = 50\<rparr>"

definition alice_likes_hello :: Like where
  "alice_likes_hello = \<lparr>Like_id = 1, Like_user_id = 1, Like_post_id = 1, Like_created_at = 210\<rparr>"

definition alice_comment :: Comment where
  "alice_comment = \<lparr>Comment_id = 1, Comment_content = ''first'', Comment_user_id = 1,
                    Comment_post_id = 1, Comment_created_at = 220, Comment_is_deleted = False\<rparr>"

text \<open>The admin is logged in; Alice has liked and commented on her post.\<close>

definition s_admin :: state where
  "s_admin = \<lparr>users = [alice, root], posts = [hello, removed], comments = [alice_comment],
              likes = [alice_likes_hello], uploads = [], session = Some 2\<rparr>"

definition register_request :: "string \<Rightarrow> string \<Rightarrow> string \<Rightarrow> request" where
  "register_request username email password =
     \<lparr>request_method = POST,
      form = [(''username'', username), (''email'', email), (''password'', password)],
      files = []\<rparr>"

definition login_request :: "string \<Rightarrow> string \<Rightarrow> string \<Rightarrow> request" where
  "login_request username password role =
     \<lparr>request_method = POST,
      form = [(''username'', username), (''password'', password), (''role'', role)],
      files = []\<rparr>"



text \<open>Nobody is logged in; Bob is blocked, and so is the admin.\<close>

definition bob :: User where
  "bob = \<lparr>User_id = 1, User_username = ''bob'', User_email = ''b@x.com'',
          User_password_hash = ''hash:pw3'', User_is_admin = False, User_blocked = True,
          User_avatar_url = [], User_created_at = 20\<rparr>"

definition s_blocked :: state where
  "s_blocked = \<lparr>users = [bob, root\<lparr>User_blocked := True\<rparr>], posts = [], comments = [],
                likes = [], uploads = [], session = None\<rparr>"

definition s_empty :: state where
  "s_empty = \<lparr>users = [], posts = [], comments = [], likes = [], uploads = [], session = None\<rparr>"

text \<open>Alice is logged in and has liked her post.\<close>

definition s_liked :: state where
  "s_liked = s_alice\<lparr>likes := [alice_likes_hello]\<rparr>"

text \<open>A form with blank text and an upload that is no image.\<close>

definition exe_request :: request where
  "exe_request =
     \<lparr>request_method = POST, form = [(''content'', ''  '')],
      files = [(''image'', \<lparr>filename = ''malware.exe'', stream = ''MZ''\<rparr>)]\<rparr>"

text \<open>Two uploads of the same name, and one that is no image.\<close>

definition cat_one :: FileStorage where
  "cat_one = \<lparr>filename = ''cat.png'', stream = ''one''\<rparr>"

definition cat_two :: FileStorage where
  "cat_two = \<lparr>filename = ''cat.png'', stream = ''two''\<rparr>"

definition malware :: FileStorage where
  "malware = \<lparr>filename = ''malware.exe'', stream = ''MZ''\<rparr>"

section \<open>Properties of the stored likes\<close>

text \<open>Whether the user holds a like on the post.\<close>

definition holds_like :: "state \<Rightarrow> nat \<Rightarrow> nat \<Rightarrow> bool" where
  "holds_like s user_id post_id =
     list_ex (\<lambda>l. Like_user_id l = user_id \<and> Like_post_id l = post_id) (likes s)"

text \<open>
  What the schema keeps true of the like table: the primary key and the
  \<^verbatim>\<open>uq_user_post_like\<close> constraint.
\<close>

definition likes_constraints :: "state \<Rightarrow> bool" where
  "likes_constraints s =
     (distinct (map Like_id (likes s)) \<and>
      distinct (map (\<lambda>l. (Like_user_id l, Like_post_id l)) (likes s)))"

section \<open>Shared facts\<close>

lemma current_user_s_alice: "current_user s_alice = Some alice"
  by (simp add: current_user_def load_user_def s_alice_def alice_def)

lemma current_user_s_admin: "current_user s_admin = Some root"
  by (simp add: current_user_def load_user_def s_admin_def alice_def root_def)

section \<open>ToggleLike on a missing or removed post\<close>

lemma get_or_404_found:
  "find (\<lambda>p. Post_id p = pid) (posts s) = Some p \<Longrightarrow> get_or_404 s pid = Inr p"
  by (simp add: get_or_404_def)

lemma get_or_404_missing:
  assumes "pid < 2 ^ 63" and "\<forall>p \<in> set (posts s). Post_id p \<noteq> pid"
  shows "get_or_404 s pid = Inl (Abort 404)"
proof -
  from assms(2) have "find (\<lambda>p. Post_id p = pid) (posts s) = None"
    by (simp add: find_None_iff)
  with assms(1) show ?thesis
    by (simp add: get_or_404_def)
qed

text \<open>
  What \<^verbatim>\<open>like_post\<close> does for an id the key column can hold. For a logged-in caller
  it fails when no post has the given id and the id is below \<open>2 ^ 63\<close> (\<^verbatim>\<open>get_or_404\<close>
  aborts with 404), and when the post with that id is soft-deleted (the JSON body has
  \<open>ok = false\<close>, status 400); in both cases the state after the call is the state before
  it, so no like is created or removed.
\<close>

lemma like_post_missing_or_deleted:
  assumes "current_user s = Some u"
  shows "(pid < 2 ^ 63 \<and> (\<forall>p \<in> set (posts s). Post_id p \<noteq> pid) \<longrightarrow>
            like_post pid now s = (Abort 404, s)) \<and>
         (\<forall>p. find (\<lambda>p. Post_id p = pid) (posts s) = Some p \<and> Post_is_deleted p \<longrightarrow>
            like_post pid now s =
              (Jsonify [(''ok'', JBool False), (''message'', JStr ''Post removed'')] 400, s))"
proof (intro conjI impI allI)
  assume "pid < 2 ^ 63 \<and> (\<forall>p \<in> set (posts s). Post_id p \<noteq> pid)"
  then have "get_or_404 s pid = Inl (Abort 404)"
    by (simp add: get_or_404_missing)
  with assms show "like_post pid now s = (Abort 404, s)"
    by (simp add: like_post_def)
next
  fix p
  assume h: "find (\<lambda>p. Post_id p = pid) (posts s) = Some p \<and> Post_is_deleted p"
  then have "get_or_404 s pid = Inr p"
    by (simp add: get_or_404_found)
  with assms h show "like_post pid now s =
      (Jsonify [(''ok'', JBool False), (''message'', JStr ''Post removed'')] 400, s)"
    by (simp add: like_post_def)
qed

text \<open>
  C2. Alice is logged in and asks to like the post with id \<open>2 ^ 63\<close>. No post has that
  id, and the call ends in \<^verbatim>\<open>OverflowError\<close>, which nothing catches, instead of the
  answer for a missing post. The state is the one before the call.
\<close>

theorem like_post_overflow:
  "current_user s_alice = Some alice \<and>
   find (\<lambda>p. Post_id p = 9223372036854775808) (posts s_alice) = None \<and>
   like_post 9223372036854775808 300 s_alice = (Raised OverflowError, s_alice)"
  by (simp add: like_post_def get_or_404_def current_user_s_alice)
    (simp add: s_alice_def hello_def removed_def)

section \<open>Soft delete and restore\<close>

lemma admin_only_current_user: "admin_only s \<Longrightarrow> \<exists>u. current_user s = Some u"
  by (cases "current_user s") (simp_all add: admin_only_def)

lemma admin_delete_post_run:
  assumes "admin_only s" and "find (\<lambda>p. Post_id p = pid) (posts s) = Some p"
  shows "admin_delete_post pid s = (Jsonify [(''ok'', JBool True)] 200, set_post_deleted pid True s)"
  using assms admin_only_current_user [OF assms(1)]
  by (auto simp: admin_delete_post_def get_or_404_found)

lemma admin_restore_post_run:
  assumes "admin_only s" and "find (\<lambda>p. Post_id p = pid) (posts s) = Some p"
  shows "admin_restore_post pid s = (Jsonify [(''ok'', JBool True)] 200, set_post_deleted pid False s)"
  using assms admin_only_current_user [OF assms(1)]
  by (auto simp: admin_restore_post_def get_or_404_found)

lemma set_post_deleted_frame:
  "users (set_post_deleted pid v s) = users s \<and>
   comments (set_post_deleted pid v s) = comments s \<and>
   likes (set_post_deleted pid v s) = likes s \<and>
   uploads (set_post_deleted pid v s) = uploads s \<and>
   session (set_post_deleted pid v s) = session s \<and>
   length (posts (set_post_deleted pid v s)) = length (posts s)"
  by (simp add: set_post_deleted_def)

lemma set_post_deleted_nth:
  "i < length (posts s) \<Longrightarrow>
   posts (set_post_deleted pid v s) ! i =
     (if Post_id (posts s ! i) = pid then (posts s ! i)\<lparr>Post_is_deleted := v\<rparr> else posts s ! i)"
  by (simp add: set_post_deleted_def)

lemma find_set_post_deleted:
  "find (\<lambda>p. Post_id p = pid) (posts s) = Some p \<Longrightarrow>
   find (\<lambda>p. Post_id p = pid) (posts (set_post_deleted pid v s)) = Some (p\<lparr>Post_is_deleted := v\<rparr>)"
proof -
  have "find (\<lambda>p. Post_id p = pid) xs = Some p \<Longrightarrow>
        find (\<lambda>p. Post_id p = pid)
          (map (\<lambda>p. if Post_id p = pid then p\<lparr>Post_is_deleted := v\<rparr> else p) xs) =
        Some (p\<lparr>Post_is_deleted := v\<rparr>)" for xs
    by (induction xs) (auto split: if_splits)
  then show "find (\<lambda>p. Post_id p = pid) (posts s) = Some p \<Longrightarrow> ?thesis"
    by (simp add: set_post_deleted_def)
qed

text \<open>
  C9. For an admin caller and a post id that \<^verbatim>\<open>Post.query.get\<close> finds,
  \<^verbatim>\<open>admin_delete_post\<close> leaves that post with \<open>is_deleted = True\<close> and
  \<^verbatim>\<open>admin_restore_post\<close> with \<open>is_deleted = False\<close>. The users, comments, likes, files
  and session are the same after the call, the post table keeps its length, every row with
  another id is the same row, and the row with this id differs in the flag only.
\<close>

theorem soft_delete_restore_frame:
  assumes "admin_only s" and "find (\<lambda>p. Post_id p = pid) (posts s) = Some p"
  shows "(fst (admin_delete_post pid s) = Jsonify [(''ok'', JBool True)] 200 \<and>
          find (\<lambda>p. Post_id p = pid) (posts (snd (admin_delete_post pid s))) =
            Some (p\<lparr>Post_is_deleted := True\<rparr>) \<and>
          users (snd (admin_delete_post pid s)) = users s \<and>
          comments (snd (admin_delete_post pid s)) = comments s \<and>
          likes (snd (admin_delete_post pid s)) = likes s \<and>
          uploads (snd (admin_delete_post pid s)) = uploads s \<and>
          session (snd (admin_delete_post pid s)) = session s \<and>
          length (posts (snd (admin_delete_post pid s))) = length (posts s) \<and>
          (\<forall>i < length (posts s).
             posts (snd (admin_delete_post pid s)) ! i =
               (if Post_id (posts s ! i) = pid then (posts s ! i)\<lparr>Post_is_deleted := True\<rparr>
                else posts s ! i))) \<and>
         (fst (admin_restore_post pid s) = Jsonify [(''ok'', JBool True)] 200 \<and>
          find (\<lambda>p. Post_id p = pid) (posts (snd (admin_restore_post pid s))) =
            Some (p\<lparr>Post_is_deleted := False\<rparr>) \<and>
          users (snd (admin_restore_post pid s)) = users s \<and>
          comments (snd (admin_restore_post pid s)) = comments s \<and>
          likes (snd (admin_restore_post pid s)) = likes s \<and>
          uploads (snd (admin_restore_post pid s)) = uploads s \<and>
          session (snd (admin_restore_post pid s)) = session s \<and>
          length (posts (snd (admin_restore_post pid s))) = length (posts s) \<and>
          (\<forall>i < length (posts s).
             posts (snd (admin_restore_post pid s)) ! i =
               (if Post_id (posts s ! i) = pid then (posts s ! i)\<lparr>Post_is_deleted := False\<rparr>
                else posts s ! i)))"
  unfolding admin_delete_post_run [OF assms] admin_restore_post_run [OF assms] fst_conv snd_conv
  using find_set_post_deleted [OF assms(2)] set_post_deleted_frame [of pid _ s]
    set_post_deleted_nth [of _ s pid]
  by simp

theorem soft_delete_restore_frame_witness:
  "admin_only s_admin \<and> find (\<lambda>p. Post_id p = 1) (posts s_admin) = Some hello \<and>
   find (\<lambda>p. Post_id p = 1) (posts (snd (admin_delete_post 1 s_admin))) =
     Some (hello\<lparr>Post_is_deleted := True\<rparr>) \<and>
   posts (snd (admin_delete_post 1 s_admin)) ! 1 = removed \<and>
   likes (snd (admin_delete_post 1 s_admin)) = [alice_likes_hello] \<and>
   comments (snd (admin_delete_post 1 s_admin)) = [alice_comment] \<and>
   find (\<lambda>p. Post_id p = 1) (posts (snd (admin_restore_post 1 s_admin))) =
     Some (hello\<lparr>Post_is_deleted := False\<rparr>)"
proof -
  have a: "admin_only s_admin"
    by (simp add: admin_only_def current_user_s_admin root_def)
  have f: "find (\<lambda>p. Post_id p = 1) (posts s_admin) = Some hello"
    by (simp add: s_admin_def hello_def)
  have n: "posts s_admin ! 1 = removed" "Post_id removed \<noteq> 1" "1 < length (posts s_admin)"
    "likes s_admin = [alice_likes_hello]" "comments s_admin = [alice_comment]"
    by (simp_all add: s_admin_def removed_def)
  from soft_delete_restore_frame [OF a f] n a f show ?thesis
    by (metis (no_types, lifting))
qed

section \<open>The feed\<close>

lemma mset_feed: "mset (feed s) = mset (filter (\<lambda>p. \<not> Post_is_deleted p) (posts s))"
  by (simp add: feed_def)

lemma set_feed: "set (feed s) = {p \<in> set (posts s). \<not> Post_is_deleted p}"
  by (simp add: feed_def)

lemma sorted_feed: "sorted_wrt (\<lambda>a b. Post_created_at b \<le> Post_created_at a) (feed s)"
proof -
  have "sorted (map (\<lambda>p. - Post_created_at p) (feed s))"
    by (simp add: feed_def)
  then show ?thesis
    by (simp add: sorted_map)
qed

lemma current_user_set_post_deleted: "current_user (set_post_deleted pid v s) = current_user s"
  by (cases "session s") (simp_all add: current_user_def load_user_def set_post_deleted_def)

lemma restored_in_feed:
  assumes "find (\<lambda>p. Post_id p = pid) (posts s) = Some p"
  shows "p\<lparr>Post_is_deleted := False\<rparr> \<in> set (feed (set_post_deleted pid False s))"
proof -
  from assms have "p \<in> set (posts s)" and "Post_id p = pid"
    by (auto simp: find_Some_iff)
  then have "p\<lparr>Post_is_deleted := False\<rparr> \<in> set (posts (set_post_deleted pid False s))"
    by (force simp: set_post_deleted_def)
  then show ?thesis
    by (simp add: set_feed)
qed

text \<open>
  C6. For a logged-in caller \<^verbatim>\<open>index\<close> renders the feed: as a multiset, the posts whose
  \<open>is_deleted\<close> is false, in an order where \<open>created_at\<close> never increases. No post of the
  result is soft-deleted, and no soft-deleted post of the table is in it. After an admin
  restores a post, \<^verbatim>\<open>index\<close> still renders the feed and the restored post is in it.
\<close>

theorem list_feed:
  assumes "current_user s = Some u"
  shows "index s = (RenderTemplate ''index.html'' (feed s), s) \<and>
         mset (feed s) = mset (filter (\<lambda>p. \<not> Post_is_deleted p) (posts s)) \<and>
         sorted_wrt (\<lambda>a b. Post_created_at b \<le> Post_created_at a) (feed s) \<and>
         (\<forall>p \<in> set (feed s). \<not> Post_is_deleted p) \<and>
         (\<forall>p \<in> set (posts s). Post_is_deleted p \<longrightarrow> p \<notin> set (feed s)) \<and>
         (\<forall>p pid. admin_only s \<and> find (\<lambda>p. Post_id p = pid) (posts s) = Some p \<longrightarrow>
            index (snd (admin_restore_post pid s)) =
              (RenderTemplate ''index.html'' (feed (snd (admin_restore_post pid s))),
               snd (admin_restore_post pid s)) \<and>
            p\<lparr>Post_is_deleted := False\<rparr> \<in> set (feed (snd (admin_restore_post pid s))))"
proof (intro conjI allI impI)
  show "index s = (RenderTemplate ''index.html'' (feed s), s)"
    using assms by (simp add: index_def)
  show "mset (feed s) = mset (filter (\<lambda>p. \<not> Post_is_deleted p) (posts s))"
    by (rule mset_feed)
  show "sorted_wrt (\<lambda>a b. Post_created_at b \<le> Post_created_at a) (feed s)"
    by (rule sorted_feed)
  show "\<forall>p \<in> set (feed s). \<not> Post_is_deleted p"
    by (simp add: set_feed)
  show "\<forall>p \<in> set (posts s). Post_is_deleted p \<longrightarrow> p \<notin> set (feed s)"
    by (simp add: set_feed)
next
  fix p pid
  assume h: "admin_only s \<and> find (\<lambda>p. Post_id p = pid) (posts s) = Some p"
  then have run: "snd (admin_restore_post pid s) = set_post_deleted pid False s"
    by (simp add: admin_restore_post_run)
  show "index (snd (admin_restore_post pid s)) =
          (RenderTemplate ''index.html'' (feed (snd (admin_restore_post pid s))),
           snd (admin_restore_post pid s))"
    using assms by (simp add: run index_def current_user_set_post_deleted)
  show "p\<lparr>Post_is_deleted := False\<rparr> \<in> set (feed (snd (admin_restore_post pid s)))"
    using h by (simp add: run restored_in_feed)
qed

theorem list_feed_witness:
  "current_user s_admin = Some root \<and>
   index s_admin = (RenderTemplate ''index.html'' [hello], s_admin) \<and>
   admin_only s_admin \<and> find (\<lambda>p. Post_id p = 2) (posts s_admin) = Some removed \<and>
   Post_is_deleted removed \<and> removed \<notin> set (feed s_admin) \<and>
   removed\<lparr>Post_is_deleted := False\<rparr> \<in> set (feed (snd (admin_restore_post 2 s_admin)))"
proof -
  have a: "admin_only s_admin"
    by (simp add: admin_only_def current_user_s_admin root_def)
  have f: "find (\<lambda>p. Post_id p = 2) (posts s_admin) = Some removed"
    by (simp add: s_admin_def hello_def removed_def)
  have d: "Post_is_deleted removed" "removed \<in> set (posts s_admin)"
    by (simp_all add: removed_def s_admin_def)
  have e: "feed s_admin = [hello]"
    by (simp add: feed_def s_admin_def hello_def removed_def)
  note L = list_feed [OF current_user_s_admin]
  from L have i: "index s_admin = (RenderTemplate ''index.html'' (feed s_admin), s_admin)"
    by blast
  from L d have n: "removed \<notin> set (feed s_admin)"
    by blast
  from L a f
  have r: "removed\<lparr>Post_is_deleted := False\<rparr> \<in> set (feed (snd (admin_restore_post 2 s_admin)))"
    by blast
  from i n r a f d e current_user_s_admin show ?thesis
    by simp
qed

section \<open>Registration\<close>

lemma py_strip_Nil: "py_strip [] = []"
  by (simp add: py_strip_def)

lemma form_fields_empty:
  "form_get req ''username'' = [] \<Longrightarrow> form_username req = []"
  "form_get req ''email'' = [] \<Longrightarrow> form_email req = []"
  "form_get req ''password'' = [] \<Longrightarrow> form_password req = []"
  by (simp_all add: form_username_def form_email_def form_password_def py_strip_Nil py_lower_def)

lemma find_None_list_ex: "find P xs = None \<longleftrightarrow> \<not> list_ex P xs"
  by (induction xs) auto

lemma register_missing_field:
  assumes "request_method req = POST"
    and "form_username req = [] \<or> form_email req = [] \<or> form_password req = []"
  shows "register env req now s = (Redirect ''register'' [(''All fields are required.'', ''error'')], s)"
  using assms unfolding register_def Let_def by auto

lemma register_conflict:
  assumes "request_method req = POST"
    and "form_username req \<noteq> []" and "form_email req \<noteq> []" and "form_password req \<noteq> []"
    and "list_ex (\<lambda>u. User_username u = form_username req \<or> User_email u = form_email req) (users s)"
  shows "register env req now s =
           (Redirect ''register'' [(''Username or Email already exists.'', ''error'')], s)"
  using assms unfolding register_def Let_def by (simp add: find_None_list_ex)

lemma register_success:
  assumes "request_method req = POST"
    and "form_username req \<noteq> []" and "form_email req \<noteq> []" and "form_password req \<noteq> []"
    and "\<not> list_ex (\<lambda>u. User_username u = form_username req \<or> User_email u = form_email req) (users s)"
  shows "register env req now s =
           (Redirect ''login'' [(''Registration successful. Please login.'', ''success'')],
            s\<lparr>users := users s @
              [\<lparr>User_id = next_id (map User_id (users s)), User_username = form_username req,
                User_email = form_email req,
                User_password_hash = generate_password_hash env (form_password req),
                User_is_admin = False, User_blocked = False, User_avatar_url = [],
                User_created_at = now\<rparr>]\<rparr>)"
proof -
  from assms(5)
  have "find (\<lambda>u. User_username u = form_username req \<or> User_email u = form_email req) (users s) = None"
    by (simp add: find_None_list_ex)
  with assms show ?thesis
    unfolding register_def Let_def add_user_def by simp
qed

text \<open>
  C7. A POST to \<^verbatim>\<open>register\<close> with an empty username, email or password (as sent, or
  after the stripping the handler does) is turned away with "All fields are required.";
  with all three present and a user of the same username or the same email in the table,
  it is turned away with "Username or Email already exists."; in both cases the state is
  unchanged. Otherwise exactly one user is appended, not an admin, whose
  \<open>password_hash\<close> is \<^verbatim>\<open>generate_password_hash\<close> of the password, and a later
  registration with the same username is turned away as a conflict and adds nobody.
\<close>

theorem register_spec:
  assumes "request_method req = POST"
  shows "((form_get req ''username'' = [] \<or> form_get req ''email'' = [] \<or>
           form_get req ''password'' = [] \<or>
           form_username req = [] \<or> form_email req = [] \<or> form_password req = []) \<longrightarrow>
          register env req now s =
            (Redirect ''register'' [(''All fields are required.'', ''error'')], s)) \<and>
         (form_username req \<noteq> [] \<and> form_email req \<noteq> [] \<and> form_password req \<noteq> [] \<and>
          (\<exists>u \<in> set (users s). User_username u = form_username req \<or> User_email u = form_email req) \<longrightarrow>
          register env req now s =
            (Redirect ''register'' [(''Username or Email already exists.'', ''error'')], s)) \<and>
         (form_username req \<noteq> [] \<and> form_email req \<noteq> [] \<and> form_password req \<noteq> [] \<and>
          \<not> (\<exists>u \<in> set (users s). User_username u = form_username req \<or> User_email u = form_email req) \<longrightarrow>
          register env req now s =
            (Redirect ''login'' [(''Registration successful. Please login.'', ''success'')],
             s\<lparr>users := users s @
               [\<lparr>User_id = next_id (map User_id (users s)), User_username = form_username req,
                 User_email = form_email req,
                 User_password_hash = generate_password_hash env (form_password req),
                 User_is_admin = False, User_blocked = False, User_avatar_url = [],
                 User_created_at = now\<rparr>]\<rparr>) \<and>
          (\<forall>req2 now2.
             request_method req2 = POST \<and> form_username req2 = form_username req \<and>
             form_email req2 \<noteq> [] \<and> form_password req2 \<noteq> [] \<longrightarrow>
             register env req2 now2 (snd (register env req now s)) =
               (Redirect ''register'' [(''Username or Email already exists.'', ''error'')],
                snd (register env req now s))))"
proof (intro conjI impI allI)
  assume "form_get req ''username'' = [] \<or> form_get req ''email'' = [] \<or>
          form_get req ''password'' = [] \<or>
          form_username req = [] \<or> form_email req = [] \<or> form_password req = []"
  then have "form_username req = [] \<or> form_email req = [] \<or> form_password req = []"
    using form_fields_empty by blast
  then show "register env req now s =
      (Redirect ''register'' [(''All fields are required.'', ''error'')], s)"
    by (rule register_missing_field [OF assms])
next
  assume "form_username req \<noteq> [] \<and> form_email req \<noteq> [] \<and> form_password req \<noteq> [] \<and>
          (\<exists>u \<in> set (users s). User_username u = form_username req \<or> User_email u = form_email req)"
  then show "register env req now s =
      (Redirect ''register'' [(''Username or Email already exists.'', ''error'')], s)"
    using register_conflict [OF assms] by (simp add: list_ex_iff)
next
  assume h: "form_username req \<noteq> [] \<and> form_email req \<noteq> [] \<and> form_password req \<noteq> [] \<and>
          \<not> (\<exists>u \<in> set (users s). User_username u = form_username req \<or> User_email u = form_email req)"
  then show ok: "register env req now s =
      (Redirect ''login'' [(''Registration successful. Please login.'', ''success'')],
       s\<lparr>users := users s @
         [\<lparr>User_id = next_id (map User_id (users s)), User_username = form_username req,
           User_email = form_email req,
           User_password_hash = generate_password_hash env (form_password req),
           User_is_admin = False, User_blocked = False, User_avatar_url = [],
           User_created_at = now\<rparr>]\<rparr>)"
    using register_success [OF assms] by (simp add: list_ex_iff)
  fix req2 now2
  assume h2: "request_method req2 = POST \<and> form_username req2 = form_username req \<and>
              form_email req2 \<noteq> [] \<and> form_password req2 \<noteq> []"
  have "list_ex (\<lambda>u. User_username u = form_username req2 \<or> User_email u = form_email req2)
          (users (snd (register env req now s)))"
    using h2 by (simp add: ok list_ex_iff)
  with h h2 show "register env req2 now2 (snd (register env req now s)) =
      (Redirect ''register'' [(''Username or Email already exists.'', ''error'')],
       snd (register env req now s))"
    using register_conflict [of req2 "snd (register env req now s)"] by simp
qed

lemma register_request_fields:
  "request_method (register_request ''alice'' ''a@x.com'' ''pw1'') = POST"
  "form_username (register_request ''alice'' ''a@x.com'' ''pw1'') = ''alice''"
  "form_email (register_request ''alice'' ''a@x.com'' ''pw1'') = ''a@x.com''"
  "form_password (register_request ''alice'' ''a@x.com'' ''pw1'') = ''pw1''"
  "form_get (register_request ''alice'' ''a@x.com'' []) ''password'' = []"
  "request_method (register_request ''alice'' ''a@x.com'' []) = POST"
  by (simp_all add: register_request_def form_username_def form_email_def form_password_def
      form_get_def py_strip_def py_lower_def py_isspace_def py_lower_char_def)

theorem register_spec_witness:
  "request_method (register_request ''alice'' ''a@x.com'' ''pw1'') = POST \<and>
   register example_env (register_request ''alice'' ''a@x.com'' []) 100 s_empty =
     (Redirect ''register'' [(''All fields are required.'', ''error'')], s_empty) \<and>
   register example_env (register_request ''alice'' ''a@x.com'' ''pw1'') 100 s_empty =
     (Redirect ''login'' [(''Registration successful. Please login.'', ''success'')],
      s_empty\<lparr>users := [alice]\<rparr>) \<and>
   register example_env (register_request ''alice'' ''a@x.com'' ''pw1'') 101 (s_empty\<lparr>users := [alice]\<rparr>) =
     (Redirect ''register'' [(''Username or Email already exists.'', ''error'')],
      s_empty\<lparr>users := [alice]\<rparr>)"
proof -
  note F = register_request_fields
  have u: "users s_empty = []" "users (s_empty\<lparr>users := [alice]\<rparr>) = [alice]"
    "User_username alice = ''alice''"
    by (simp_all add: s_empty_def alice_def)
  have a: "\<lparr>User_id = next_id (map User_id []), User_username = ''alice'', User_email = ''a@x.com'',
            User_password_hash = generate_password_hash example_env ''pw1'',
            User_is_admin = False, User_blocked = False, User_avatar_url = [],
            User_created_at = 100\<rparr> = alice"
    by (simp add: alice_def next_id_def example_env_def)
  from register_spec [OF F(6), of example_env 100 s_empty] F(5)
  have 1: "register example_env (register_request ''alice'' ''a@x.com'' []) 100 s_empty =
     (Redirect ''register'' [(''All fields are required.'', ''error'')], s_empty)"
    by blast
  from register_spec [OF F(1), of example_env 100 s_empty] F u a
  have 2: "register example_env (register_request ''alice'' ''a@x.com'' ''pw1'') 100 s_empty =
     (Redirect ''login'' [(''Registration successful. Please login.'', ''success'')],
      s_empty\<lparr>users := [alice]\<rparr>)"
    by simp
  from register_spec [OF F(1), of example_env 101 "s_empty\<lparr>users := [alice]\<rparr>"] F u
  have 3: "register example_env (register_request ''alice'' ''a@x.com'' ''pw1'') 101 (s_empty\<lparr>users := [alice]\<rparr>) =
     (Redirect ''register'' [(''Username or Email already exists.'', ''error'')],
      s_empty\<lparr>users := [alice]\<rparr>)"
    by simp
  from 1 2 3 F(1) show ?thesis
    by simp
qed

section \<open>Login\<close>

lemma login_user_role:
  assumes "request_method req = POST" and "form_role req \<noteq> ''admin''"
  shows "login env req now s =
           login_verify env (find (\<lambda>u. User_username u = form_username req) (users s))
             (form_password req) s"
  using assms unfolding login_def Let_def by simp

lemma login_admin_role_wrong_name:
  assumes "request_method req = POST" and "form_role req = ''admin''"
    and "form_username req \<noteq> ADMIN_USERNAME env"
  shows "login env req now s = (Redirect ''login'' [(''Invalid admin credentials.'', ''error'')], s)"
  using assms unfolding login_def Let_def by simp

lemma login_admin_role_existing:
  assumes "request_method req = POST" and "form_role req = ''admin''"
    and "form_username req = ADMIN_USERNAME env"
    and "find (\<lambda>u. User_username u = ADMIN_USERNAME env) (users s) = Some u"
  shows "login env req now s = login_verify env (Some u) (form_password req) s"
  using assms unfolding login_def Let_def by simp



text \<open>
  C8, as the code has it. A POST to \<^verbatim>\<open>login\<close> names a blocked user \<open>u\<close> (the row the
  username lookup returns) and carries a password that \<^verbatim>\<open>check_password_hash\<close> accepts
  for \<open>u\<close>. If \<open>u\<close> is not an admin the state, and with it the session, is unchanged. A
  form that asks for the admin role under another name than \<^verbatim>\<open>ADMIN_USERNAME\<close> is answered
  "Invalid admin credentials."; every other form is answered "Your account is blocked.
  Contact admin." if \<open>u\<close> is not an admin, and logs \<open>u\<close> in, the session holding the id of
  \<open>u\<close>, if \<open>u\<close> is an admin.
\<close>

theorem login_blocked:
  assumes "request_method req = POST"
    and "find (\<lambda>x. User_username x = form_username req) (users s) = Some u"
    and "check_password_hash env (User_password_hash u) (form_password req)"
    and "User_blocked u"
  shows "(\<not> User_is_admin u \<longrightarrow> snd (login env req now s) = s) \<and>
         (\<not> User_is_admin u \<and> (form_role req \<noteq> ''admin'' \<or> form_username req = ADMIN_USERNAME env) \<longrightarrow>
            login env req now s =
              (Redirect ''login'' [(''Your account is blocked. Contact admin.'', ''error'')], s)) \<and>
         (User_is_admin u \<and> (form_role req \<noteq> ''admin'' \<or> form_username req = ADMIN_USERNAME env) \<longrightarrow>
            login env req now s =
              (Redirect ''index'' [(''Login successful.'', ''success'')],
               s\<lparr>session := Some (User_id u)\<rparr>)) \<and>
         (form_role req = ''admin'' \<and> form_username req \<noteq> ADMIN_USERNAME env \<longrightarrow>
            login env req now s =
              (Redirect ''login'' [(''Invalid admin credentials.'', ''error'')], s))"
proof -
  have pass: "login env req now s = login_verify env (Some u) (form_password req) s"
    if "form_role req \<noteq> ''admin'' \<or> form_username req = ADMIN_USERNAME env"
  proof (cases "form_role req = ''admin''")
    case True
    with that have n: "form_username req = ADMIN_USERNAME env" by simp
    with assms(2) have "find (\<lambda>u. User_username u = ADMIN_USERNAME env) (users s) = Some u"
      by simp
    then show ?thesis
      by (rule login_admin_role_existing [OF assms(1) True n])
  next
    case False
    then show ?thesis
      using login_user_role [OF assms(1) False] assms(2) by simp
  qed
  have turned: "login env req now s = (Redirect ''login'' [(''Invalid admin credentials.'', ''error'')], s)"
    if "\<not> (form_role req \<noteq> ''admin'' \<or> form_username req = ADMIN_USERNAME env)"
    using that login_admin_role_wrong_name [OF assms(1)] by simp
  have blocked: "login_verify env (Some u) (form_password req) s =
      (Redirect ''login'' [(''Your account is blocked. Contact admin.'', ''error'')], s)"
    if "\<not> User_is_admin u"
    using that assms(3,4) by (simp add: login_verify_def)
  have admin: "login_verify env (Some u) (form_password req) s =
      (Redirect ''index'' [(''Login successful.'', ''success'')], s\<lparr>session := Some (User_id u)\<rparr>)"
    if "User_is_admin u"
    using that assms(3,4) by (simp add: login_verify_def login_user_def)
  show ?thesis
    using pass turned blocked admin
    by (cases "form_role req \<noteq> ''admin'' \<or> form_username req = ADMIN_USERNAME env") auto
qed

lemma login_request_fields:
  "request_method (login_request n p r) = POST"
  "form_password (login_request n p r) = p"
  "form_username (login_request ''bob'' p r) = ''bob''"
  "form_username (login_request ''admin'' p r) = ''admin''"
  "form_role (login_request n p ''user'') = ''user''"
  "form_role (login_request n p ''admin'') = ''admin''"
  by (simp_all add: login_request_def form_username_def form_password_def form_role_def
      form_get_def py_strip_def py_isspace_def)

theorem login_blocked_witness:
  "find (\<lambda>x. User_username x = form_username (login_request ''bob'' ''pw3'' ''user'')) (users s_blocked) = Some bob \<and>
   check_password_hash example_env (User_password_hash bob) ''pw3'' \<and> User_blocked bob \<and>
   \<not> User_is_admin bob \<and>
   login example_env (login_request ''bob'' ''pw3'' ''user'') 300 s_blocked =
     (Redirect ''login'' [(''Your account is blocked. Contact admin.'', ''error'')], s_blocked) \<and>
   User_is_admin (root\<lparr>User_blocked := True\<rparr>) \<and>
   login example_env (login_request ''admin'' ''Admin@12345'' ''user'') 300 s_blocked =
     (Redirect ''index'' [(''Login successful.'', ''success'')], s_blocked\<lparr>session := Some 2\<rparr>)"
proof -
  note F = login_request_fields
  have b: "find (\<lambda>x. User_username x = form_username (login_request ''bob'' ''pw3'' ''user'')) (users s_blocked) = Some bob"
    "check_password_hash example_env (User_password_hash bob) (form_password (login_request ''bob'' ''pw3'' ''user''))"
    "User_blocked bob" "\<not> User_is_admin bob"
    by (simp_all add: F s_blocked_def bob_def example_env_def)
  have r: "find (\<lambda>x. User_username x = form_username (login_request ''admin'' ''Admin@12345'' ''user'')) (users s_blocked) = Some (root\<lparr>User_blocked := True\<rparr>)"
    "check_password_hash example_env (User_password_hash (root\<lparr>User_blocked := True\<rparr>)) (form_password (login_request ''admin'' ''Admin@12345'' ''user''))"
    "User_blocked (root\<lparr>User_blocked := True\<rparr>)" "User_is_admin (root\<lparr>User_blocked := True\<rparr>)"
    "User_id (root\<lparr>User_blocked := True\<rparr>) = 2"
    by (simp_all add: F s_blocked_def bob_def root_def example_env_def)
  from login_blocked [OF F(1) b(1) b(2) b(3), of 300] b(4) F(5)
  have 1: "login example_env (login_request ''bob'' ''pw3'' ''user'') 300 s_blocked =
     (Redirect ''login'' [(''Your account is blocked. Contact admin.'', ''error'')], s_blocked)"
    by simp
  from login_blocked [OF F(1) r(1) r(2) r(3), of 300] r(4,5) F(5)
  have 2: "login example_env (login_request ''admin'' ''Admin@12345'' ''user'') 300 s_blocked =
     (Redirect ''index'' [(''Login successful.'', ''success'')], s_blocked\<lparr>session := Some 2\<rparr>)"
    by simp
  from 1 2 b r F(2) show ?thesis
    by simp
qed

text \<open>
  The claim C8 as written fails for a form that asks for the admin role: Bob is blocked and
  no admin, his password is accepted, and the answer is the one for bad admin credentials,
  not the one for a blocked account.
\<close>

theorem login_blocked_counterexample:
  "find (\<lambda>x. User_username x = form_username (login_request ''bob'' ''pw3'' ''admin''))
     (users s_blocked) = Some bob \<and>
   check_password_hash example_env (User_password_hash bob)
     (form_password (login_request ''bob'' ''pw3'' ''admin'')) \<and>
   User_blocked bob \<and> \<not> User_is_admin bob \<and>
   login example_env (login_request ''bob'' ''pw3'' ''admin'') 300 s_blocked =
     (Redirect ''login'' [(''Invalid admin credentials.'', ''error'')], s_blocked)"
  by (simp add: login_request_fields login_def Let_def s_blocked_def bob_def example_env_def)







section \<open>Toggling a like\<close>

lemma fold_max_ge: "x \<in> set xs \<Longrightarrow> x \<le> fold max xs (a::nat)"
proof (induction xs arbitrary: a)
  case Nil
  then show ?case by simp
next
  case (Cons y ys)
  have mono: "b \<le> fold max zs (b::nat)" for b zs
    by (induction zs arbitrary: b) (auto intro: order_trans [OF max.cobounded2])
  from Cons show ?case
    using mono [of "max y a" ys] by auto
qed

lemma lt_next_id: "x \<in> set xs \<Longrightarrow> x < next_id xs"
  using fold_max_ge [of x xs 0] by (simp add: next_id_def)

lemma filter_fresh_id:
  "filter (\<lambda>l. Like_id l \<noteq> next_id (map Like_id ls)) ls = ls"
proof -
  have "\<forall>l \<in> set ls. Like_id l \<noteq> next_id (map Like_id ls)"
    using lt_next_id [of _ "map Like_id ls"] by fastforce
  then show ?thesis
    by (simp add: filter_id_conv)
qed

lemma find_snoc_None: "find P xs = None \<Longrightarrow> find P (xs @ [y]) = (if P y then Some y else None)"
  by (induction xs) (auto split: if_splits)

lemma current_user_likes_update: "current_user (s\<lparr>likes := ls\<rparr>) = current_user s"
  by (cases "session s") (simp_all add: current_user_def load_user_def)

lemma like_post_add:
  assumes "current_user s = Some u" and "find (\<lambda>p. Post_id p = pid) (posts s) = Some p"
    and "\<not> Post_is_deleted p" and "\<not> holds_like s (User_id u) pid"
  shows "like_post pid now s =
           (like_response True (Suc (length (post_likes s pid))),
            s\<lparr>likes := likes s @
              [\<lparr>Like_id = next_id (map Like_id (likes s)), Like_user_id = User_id u,
                Like_post_id = pid, Like_created_at = now\<rparr>]\<rparr>)"
proof -
  from assms(4)
  have "find (\<lambda>l. Like_user_id l = User_id u \<and> Like_post_id l = pid) (likes s) = None"
    by (simp add: holds_like_def find_None_list_ex)
  with assms show ?thesis
    by (simp add: like_post_def get_or_404_found add_like_def holds_like_def post_likes_def)
qed

lemma like_post_remove:
  assumes "current_user s = Some u" and "find (\<lambda>p. Post_id p = pid) (posts s) = Some p"
    and "\<not> Post_is_deleted p"
    and "find (\<lambda>l. Like_user_id l = User_id u \<and> Like_post_id l = pid) (likes s) = Some e"
  shows "like_post pid now s =
           (like_response False (length (post_likes (delete_like e s) pid)), delete_like e s)"
  using assms by (simp add: like_post_def get_or_404_found Let_def)

lemma holds_like_find:
  "holds_like s uid pid \<Longrightarrow>
   \<exists>e. find (\<lambda>l. Like_user_id l = uid \<and> Like_post_id l = pid) (likes s) = Some e"
  by (cases "find (\<lambda>l. Like_user_id l = uid \<and> Like_post_id l = pid) (likes s)")
    (simp_all add: holds_like_def find_None_list_ex)

lemma unique_pair_removed:
  assumes "distinct (map (\<lambda>l. (Like_user_id l, Like_post_id l)) ls)"
    and "e \<in> set ls"
  shows "\<not> list_ex (\<lambda>l. Like_user_id l = Like_user_id e \<and> Like_post_id l = Like_post_id e)
           (filter (\<lambda>l. Like_id l \<noteq> Like_id e) ls)"
proof -
  have "l = e" if "l \<in> set ls" and "Like_user_id l = Like_user_id e" and "Like_post_id l = Like_post_id e" for l
    using that assms by (auto simp: distinct_map dest: inj_onD)
  then show ?thesis
    by (auto simp: list_ex_iff)
qed

lemma unique_id_removed_count:
  assumes "distinct (map Like_id ls)" and "e \<in> set ls" and "P e"
  shows "Suc (length (filter P (filter (\<lambda>l. Like_id l \<noteq> Like_id e) ls))) = length (filter P ls)"
  using assms
proof (induction ls)
  case Nil
  then show ?case by simp
next
  case (Cons a ls)
  show ?case
  proof (cases "a = e")
    case True
    from Cons.prems(1) have "Like_id a \<notin> Like_id ` set ls"
      by simp
    with True have "\<forall>l \<in> set ls. Like_id l \<noteq> Like_id e"
      by (metis imageI)
    then have "filter (\<lambda>l. Like_id l \<noteq> Like_id e) ls = ls"
      by (simp add: filter_id_conv)
    with True Cons.prems show ?thesis by simp
  next
    case False
    with Cons.prems have "e \<in> set ls" and "Like_id a \<noteq> Like_id e"
      by auto
    with Cons show ?thesis by simp
  qed
qed

lemma toggle_twice_from_unliked:
  assumes "current_user s = Some u" and "find (\<lambda>p. Post_id p = pid) (posts s) = Some p"
    and "\<not> Post_is_deleted p" and "\<not> holds_like s (User_id u) pid"
  shows "like_post pid t2 (snd (like_post pid t1 s)) =
           (like_response False (length (post_likes s pid)), s)"
proof -
  define new where "new = \<lparr>Like_id = next_id (map Like_id (likes s)), Like_user_id = User_id u,
                             Like_post_id = pid, Like_created_at = t1\<rparr>"
  define s1 where "s1 = s\<lparr>likes := likes s @ [new]\<rparr>"
  have first: "snd (like_post pid t1 s) = s1"
    using like_post_add [OF assms] by (simp add: s1_def new_def)
  have cu: "current_user s1 = Some u"
    using assms(1) by (simp add: s1_def current_user_likes_update)
  have post: "find (\<lambda>p. Post_id p = pid) (posts s1) = Some p"
    using assms(2) by (simp add: s1_def)
  from assms(4)
  have "find (\<lambda>l. Like_user_id l = User_id u \<and> Like_post_id l = pid) (likes s) = None"
    by (simp add: holds_like_def find_None_list_ex)
  then have ex: "find (\<lambda>l. Like_user_id l = User_id u \<and> Like_post_id l = pid) (likes s1) = Some new"
    by (simp add: s1_def new_def find_snoc_None)
  have del: "delete_like new s1 = s"
    using filter_fresh_id [of "likes s"] by (simp add: delete_like_def s1_def new_def)
  show ?thesis
    unfolding first like_post_remove [OF cu post assms(3) ex] del ..
qed

lemma toggle_twice_from_liked:
  assumes "current_user s = Some u" and "find (\<lambda>p. Post_id p = pid) (posts s) = Some p"
    and "\<not> Post_is_deleted p"
    and "find (\<lambda>l. Like_user_id l = User_id u \<and> Like_post_id l = pid) (likes s) = Some e"
    and "likes_constraints s"
  shows "like_post pid t2 (snd (like_post pid t1 s)) =
           (like_response True (length (post_likes s pid)),
            s\<lparr>likes := filter (\<lambda>l. Like_id l \<noteq> Like_id e) (likes s) @
              [\<lparr>Like_id = next_id (map Like_id (filter (\<lambda>l. Like_id l \<noteq> Like_id e) (likes s))),
                Like_user_id = User_id u, Like_post_id = pid, Like_created_at = t2\<rparr>]\<rparr>)"
proof -
  define s1 where "s1 = delete_like e s"
  have first: "snd (like_post pid t1 s) = s1"
    using like_post_remove [OF assms(1-4)] by (simp add: s1_def)
  from assms(4) have e: "e \<in> set (likes s)" "Like_user_id e = User_id u" "Like_post_id e = pid"
    by (auto simp: find_Some_iff)
  have cu: "current_user s1 = Some u"
    using assms(1) by (simp add: s1_def delete_like_def current_user_likes_update)
  have post: "find (\<lambda>p. Post_id p = pid) (posts s1) = Some p"
    using assms(2) by (simp add: s1_def delete_like_def)
  have none: "\<not> holds_like s1 (User_id u) pid"
    using unique_pair_removed [of "likes s" e] assms(5) e
    by (simp add: holds_like_def s1_def delete_like_def likes_constraints_def)
  have count: "Suc (length (post_likes s1 pid)) = length (post_likes s pid)"
    using unique_id_removed_count [of "likes s" e "\<lambda>l. Like_post_id l = pid"] assms(5) e
    by (simp add: post_likes_def s1_def delete_like_def likes_constraints_def)
  show ?thesis
    unfolding first like_post_add [OF cu post assms(3) none] count
    by (simp add: s1_def delete_like_def)
qed

text \<open>
  C1, as the code has it. The caller is logged in and the post exists and is not
  soft-deleted. If the caller holds no like on the post, two calls of \<^verbatim>\<open>like_post\<close> in a
  row end in the state before the first call, and the second answer is \<open>liked = false\<close>
  with the count of before. If the caller holds a like on the post (in a like table that
  keeps its key and its \<^verbatim>\<open>uq_user_post_like\<close> constraint), the second answer is
  \<open>liked = true\<close> with the count of before, the caller holds a like on the post again, and
  the likes of other users and on other posts are the same rows in the same order.
\<close>

theorem toggle_like_twice:
  assumes "current_user s = Some u" and "find (\<lambda>p. Post_id p = pid) (posts s) = Some p"
    and "\<not> Post_is_deleted p"
  shows "(\<not> holds_like s (User_id u) pid \<longrightarrow>
            like_post pid t2 (snd (like_post pid t1 s)) =
              (like_response False (length (post_likes s pid)), s)) \<and>
         (holds_like s (User_id u) pid \<and> likes_constraints s \<longrightarrow>
            fst (like_post pid t2 (snd (like_post pid t1 s))) =
              like_response True (length (post_likes s pid)) \<and>
            holds_like (snd (like_post pid t2 (snd (like_post pid t1 s)))) (User_id u) pid \<and>
            length (post_likes (snd (like_post pid t2 (snd (like_post pid t1 s)))) pid) =
              length (post_likes s pid) \<and>
            filter (\<lambda>l. \<not> (Like_user_id l = User_id u \<and> Like_post_id l = pid))
              (likes (snd (like_post pid t2 (snd (like_post pid t1 s))))) =
            filter (\<lambda>l. \<not> (Like_user_id l = User_id u \<and> Like_post_id l = pid)) (likes s))"
proof (intro conjI impI)
  assume "\<not> holds_like s (User_id u) pid"
  then show "like_post pid t2 (snd (like_post pid t1 s)) =
      (like_response False (length (post_likes s pid)), s)"
    by (rule toggle_twice_from_unliked [OF assms])
next
  assume h: "holds_like s (User_id u) pid \<and> likes_constraints s"
  then obtain e where e: "find (\<lambda>l. Like_user_id l = User_id u \<and> Like_post_id l = pid) (likes s) = Some e"
    using holds_like_find by blast
  note run = toggle_twice_from_liked [OF assms e, of t2 t1]
  from e have m: "e \<in> set (likes s)" "Like_user_id e = User_id u" "Like_post_id e = pid"
    by (auto simp: find_Some_iff)
  have others: "filter (\<lambda>l. \<not> (Like_user_id l = User_id u \<and> Like_post_id l = pid))
                  (filter (\<lambda>l. Like_id l \<noteq> Like_id e) (likes s)) =
                filter (\<lambda>l. \<not> (Like_user_id l = User_id u \<and> Like_post_id l = pid)) (likes s)"
  proof -
    have "l = e" if "l \<in> set (likes s)" and "Like_id l = Like_id e" for l
      using that m(1) h by (auto simp: likes_constraints_def distinct_map dest: inj_onD)
    then show ?thesis
      using m(2,3) by (auto intro!: filter_cong)
  qed
  have count: "Suc (length (filter (\<lambda>l. Like_post_id l = pid)
                  (filter (\<lambda>l. Like_id l \<noteq> Like_id e) (likes s)))) =
               length (filter (\<lambda>l. Like_post_id l = pid) (likes s))"
    using unique_id_removed_count [of "likes s" e "\<lambda>l. Like_post_id l = pid"] h m
    by (simp add: likes_constraints_def)
  show "fst (like_post pid t2 (snd (like_post pid t1 s))) =
      like_response True (length (post_likes s pid))"
    using h by (simp add: run)
  show "holds_like (snd (like_post pid t2 (snd (like_post pid t1 s)))) (User_id u) pid"
    using h by (simp add: run holds_like_def)
  show "length (post_likes (snd (like_post pid t2 (snd (like_post pid t1 s)))) pid) =
      length (post_likes s pid)"
    using h count by (simp add: run post_likes_def)
  show "filter (\<lambda>l. \<not> (Like_user_id l = User_id u \<and> Like_post_id l = pid))
          (likes (snd (like_post pid t2 (snd (like_post pid t1 s))))) =
        filter (\<lambda>l. \<not> (Like_user_id l = User_id u \<and> Like_post_id l = pid)) (likes s)"
    using h others by (simp add: run)
qed

lemma s_liked_facts:
  "current_user s_liked = Some alice"
  "find (\<lambda>p. Post_id p = 1) (posts s_liked) = Some hello"
  "\<not> Post_is_deleted hello"
  "holds_like s_liked (User_id alice) 1"
  "likes_constraints s_liked"
  "length (post_likes s_liked 1) = 1"
  by (simp_all add: s_liked_def s_alice_def current_user_def load_user_def alice_def hello_def
      holds_like_def likes_constraints_def post_likes_def alice_likes_hello_def)

lemma s_alice_facts:
  "find (\<lambda>p. Post_id p = 1) (posts s_alice) = Some hello"
  "\<not> holds_like s_alice (User_id alice) 1"
  "length (post_likes s_alice 1) = 0"
  by (simp_all add: s_alice_def hello_def holds_like_def post_likes_def)

theorem toggle_like_twice_witness:
  "current_user s_alice = Some alice \<and>
   find (\<lambda>p. Post_id p = 1) (posts s_alice) = Some hello \<and> \<not> Post_is_deleted hello \<and>
   \<not> holds_like s_alice (User_id alice) 1 \<and>
   like_post 1 301 (snd (like_post 1 300 s_alice)) = (like_response False 0, s_alice) \<and>
   current_user s_liked = Some alice \<and>
   find (\<lambda>p. Post_id p = 1) (posts s_liked) = Some hello \<and>
   holds_like s_liked (User_id alice) 1 \<and> likes_constraints s_liked \<and>
   fst (like_post 1 301 (snd (like_post 1 300 s_liked))) = like_response True 1"
proof -
  note A = s_alice_facts and L = s_liked_facts
  from toggle_like_twice [OF current_user_s_alice A(1) L(3), of 301 300] A(2,3)
  have 1: "like_post 1 301 (snd (like_post 1 300 s_alice)) = (like_response False 0, s_alice)"
    by simp
  from toggle_like_twice [OF L(1) L(2) L(3), of 301 300] L(4,5,6)
  have 2: "fst (like_post 1 301 (snd (like_post 1 300 s_liked))) = like_response True 1"
    by simp
  from 1 2 current_user_s_alice A L show ?thesis
    by simp
qed

text \<open>
  The claim C1 as written fails for a caller who already holds a like on the post: the
  first call removes it, the second creates one, and the second answer is \<open>liked = true\<close>
  with the caller holding a like.
\<close>

theorem toggle_like_twice_counterexample:
  "current_user s_liked = Some alice \<and>
   find (\<lambda>p. Post_id p = 1) (posts s_liked) = Some hello \<and> \<not> Post_is_deleted hello \<and>
   fst (like_post 1 300 s_liked) = like_response False 0 \<and>
   fst (like_post 1 301 (snd (like_post 1 300 s_liked))) = like_response True 1 \<and>
   holds_like (snd (like_post 1 301 (snd (like_post 1 300 s_liked)))) (User_id alice) 1"
  by (simp add: s_liked_def s_alice_def current_user_def load_user_def alice_def hello_def
      removed_def holds_like_def post_likes_def alice_likes_hello_def like_post_def
      get_or_404_def Let_def
      delete_like_def add_like_def next_id_def)

section \<open>Creating a post\<close>

lemma create_post_nothing_to_post:
  assumes "current_user s = Some u" and "request_method req = POST"
    and "py_strip (form_get req ''content'') = []" and "\<not> file_truthy (map_of (files req) ''image'')"
  shows "create_post env req ts now s =
           (Redirect ''create_post'' [(''Write something or add an image.'', ''error'')], s)"
  using assms by (simp add: create_post_def Let_def)

lemma posts_save_image: "posts (snd (save_image env f ts s)) = posts s"
  by (simp add: save_image_def Let_def split: option.splits)

lemma create_post_persists_one:
  assumes "current_user s = Some u" and "request_method req = POST"
    and "py_strip (form_get req ''content'') \<noteq> [] \<or> file_truthy (map_of (files req) ''image'')"
  shows "\<exists>image_url.
           posts (snd (create_post env req ts now s)) =
             posts s @
               [\<lparr>Post_id = next_id (map Post_id (posts s)),
                 Post_content = py_strip (form_get req ''content''),
                 Post_image_url = image_url, Post_user_id = User_id u, Post_created_at = now,
                 Post_is_deleted = False\<rparr>]"
proof (cases "file_truthy (map_of (files req) ''image'')")
  case True
  obtain url s1 where r: "save_image env (map_of (files req) ''image'') ts s = (url, s1)"
    by (cases "save_image env (map_of (files req) ''image'') ts s")
  then have "posts s1 = posts s"
    using posts_save_image [of env "map_of (files req) ''image''" ts s] by simp
  with assms True r show ?thesis
    by (simp add: create_post_def Let_def add_post_def)
next
  case False
  with assms show ?thesis
    by (simp add: create_post_def Let_def add_post_def)
qed

text \<open>
  C4. The form \<open>exe_request\<close> has blank text and an upload named \<open>malware.exe\<close>. The
  guard of \<^verbatim>\<open>create_post\<close> sees an upload and lets the form pass, \<^verbatim>\<open>save_image\<close>
  refuses the extension and returns the empty reference, and the post is stored with
  empty content and an empty image reference.
\<close>

theorem create_post_stores_empty_post:
  "current_user s_alice = Some alice \<and>
   create_post example_env exe_request 17 18 s_alice =
     (Redirect ''index'' [(''Post created.'', ''success'')],
      s_alice\<lparr>posts := [hello, removed,
        \<lparr>Post_id = 3, Post_content = [], Post_image_url = [], Post_user_id = 1,
          Post_created_at = 18, Post_is_deleted = False\<rparr>]\<rparr>)"
  by (simp add: create_post_def Let_def exe_request_def form_get_def py_strip_def
      py_isspace_def file_truthy_def save_image_def example_env_def allowed_image_def
      rsplit_dot_last_def py_lower_def py_lower_char_def ALLOWED_IMAGE_EXTENSIONS_def
      add_post_def next_id_def s_alice_def alice_def hello_def removed_def
      current_user_def load_user_def)

section \<open>Decimal numerals and file names\<close>

lemma digit_char_digit: "d < 10 \<Longrightarrow> digit_char d \<in> set ''0123456789''"
  unfolding digit_char_def by (rule nth_mem) simp

lemma digit_char_inj: "d < 10 \<Longrightarrow> e < 10 \<Longrightarrow> digit_char d = digit_char e \<Longrightarrow> d = e"
proof -
  assume d: "d < 10" and e: "e < 10" and eq: "digit_char d = digit_char e"
  have dist: "distinct ''0123456789''"
    by simp
  have ld: "d < length ''0123456789''" and le: "e < length ''0123456789''"
    using d e by simp_all
  from nth_eq_iff_index_eq [OF dist ld le] eq show "d = e"
    unfolding digit_char_def by blast
qed

lemma str_nat_not_Nil: "str_nat n \<noteq> []"
  by (subst str_nat.simps) simp

lemma str_nat_digits: "set (str_nat n) \<subseteq> set ''0123456789''"
proof (induction n rule: str_nat.induct)
  case (1 n)
  show ?case
  proof (cases "n < 10")
    case True
    then show ?thesis
      using digit_char_digit [of n] by (subst str_nat.simps) simp
  next
    case False
    have "n mod 10 < 10" by simp
    then have "digit_char (n mod 10) \<in> set ''0123456789''"
      by (rule digit_char_digit)
    with False 1 show ?thesis
      by (subst str_nat.simps) simp
  qed
qed

lemma str_nat_inj: "str_nat n = str_nat m \<Longrightarrow> n = m"
proof (induction n arbitrary: m rule: str_nat.induct)
  case (1 n)
  show ?case
  proof (cases "n < 10")
    case True
    then have n: "str_nat n = [digit_char n]"
      by (subst str_nat.simps) simp
    show ?thesis
    proof (cases "m < 10")
      case m: True
      then have "str_nat m = [digit_char m]"
        by (subst str_nat.simps) simp
      with n "1.prems" True m show ?thesis
        by (simp add: digit_char_inj)
    next
      case False
      then have "str_nat m = str_nat (m div 10) @ [digit_char (m mod 10)]"
        by (subst str_nat.simps) simp
      with n "1.prems" str_nat_not_Nil [of "m div 10"] show ?thesis
        by simp
    qed
  next
    case False
    then have n: "str_nat n = str_nat (n div 10) @ [digit_char (n mod 10)]"
      by (subst str_nat.simps) simp
    show ?thesis
    proof (cases "m < 10")
      case True
      then have "str_nat m = [digit_char m]"
        by (subst str_nat.simps) simp
      with n "1.prems" str_nat_not_Nil [of "n div 10"] show ?thesis
        by simp
    next
      case m: False
      then have "str_nat m = str_nat (m div 10) @ [digit_char (m mod 10)]"
        by (subst str_nat.simps) simp
      with n "1.prems" have eq: "str_nat (n div 10) = str_nat (m div 10)"
        and dg: "digit_char (n mod 10) = digit_char (m mod 10)"
        by simp_all
      from "1.IH" [OF False eq] have "n div 10 = m div 10" .
      moreover from dg have "n mod 10 = m mod 10"
        by (simp add: digit_char_inj)
      ultimately show ?thesis
        by (metis div_mult_mod_eq)
    qed
  qed
qed

lemma str_int_not_Nil: "str_int i \<noteq> []"
  by (simp add: str_int_def str_nat_not_Nil)

lemma str_nat_char: "c \<in> set (str_nat n) \<Longrightarrow> c \<in> set ''0123456789''"
  using str_nat_digits [of n] by (rule subsetD)

lemma str_int_char:
  assumes "c \<in> set (str_int i)"
  shows "c = CHR ''-'' \<or> c \<in> set ''0123456789''"
proof (cases "i < 0")
  case True
  with assms have "c = CHR ''-'' \<or> c \<in> set (str_nat (nat (- i)))"
    by (simp add: str_int_def)
  then show ?thesis
    by (rule disj_forward) (simp, rule str_nat_char)
next
  case False
  with assms have "c \<in> set (str_nat (nat i))"
    by (simp add: str_int_def)
  then show ?thesis
    by (rule str_nat_char [THEN disjI2])
qed

lemma underscore_not_in_str_int: "CHR ''_'' \<notin> set (str_int i)"
proof
  assume "CHR ''_'' \<in> set (str_int i)"
  then have "CHR ''_'' = CHR ''-'' \<or> CHR ''_'' \<in> set ''0123456789''"
    by (rule str_int_char)
  then show False
    by simp
qed

lemma last_str_int_digit: "last (str_int i) \<in> set ''0123456789''"
proof -
  have "last (str_nat n) \<in> set (str_nat n)" for n
    by (rule last_in_set) (rule str_nat_not_Nil)
  then have "last (str_nat n) \<in> set ''0123456789''" for n
    by (rule str_nat_char)
  then show ?thesis
    by (simp add: str_int_def str_nat_not_Nil)
qed

lemma str_nat_no_dash: "str_nat n \<noteq> CHR ''-'' # cs"
proof
  assume "str_nat n = CHR ''-'' # cs"
  then have "CHR ''-'' \<in> set (str_nat n)"
    by simp
  then have "CHR ''-'' \<in> set ''0123456789''"
    by (rule str_nat_char)
  then show False
    by simp
qed

lemma str_int_inj: "str_int i = str_int j \<Longrightarrow> i = j"
proof -
  assume eq: "str_int i = str_int j"
  show "i = j"
  proof (cases "i < 0")
    case True
    show ?thesis
    proof (cases "j < 0")
      case j: True
      with True eq have "str_nat (nat (- i)) = str_nat (nat (- j))"
        by (simp add: str_int_def)
      then have "nat (- i) = nat (- j)"
        by (rule str_nat_inj)
      with True j show ?thesis by simp
    next
      case False
      with True eq have "str_nat (nat j) = CHR ''-'' # str_nat (nat (- i))"
        by (simp add: str_int_def)
      with str_nat_no_dash show ?thesis by blast
    qed
  next
    case False
    show ?thesis
    proof (cases "j < 0")
      case True
      with False eq have "str_nat (nat i) = CHR ''-'' # str_nat (nat (- j))"
        by (simp add: str_int_def)
      with str_nat_no_dash show ?thesis by blast
    next
      case j: False
      with False eq have "str_nat (nat i) = str_nat (nat j)"
        by (simp add: str_int_def)
      then have "nat i = nat j"
        by (rule str_nat_inj)
      with False j show ?thesis by simp
    qed
  qed
qed

lemma split_at_last:
  assumes "c \<notin> set ys" and "c \<notin> set ys'" and "xs @ c # ys = xs' @ c # ys'"
  shows "xs = xs' \<and> ys = ys'"
proof -
  have tw: "takeWhile (\<lambda>x. x \<noteq> c) (rev (as @ c # bs)) = rev bs" if "c \<notin> set bs" for as bs
    using that by (auto simp: takeWhile_tail)
  from assms(3) have "takeWhile (\<lambda>x. x \<noteq> c) (rev (xs @ c # ys)) =
                      takeWhile (\<lambda>x. x \<noteq> c) (rev (xs' @ c # ys'))"
    by simp
  then have "ys = ys'"
    unfolding tw [OF assms(1)] tw [OF assms(2)] by simp
  with assms(3) show ?thesis by simp
qed

lemma last_dot_split:
  assumes "CHR ''.'' \<in> set f"
  shows "f = take (nat (rfind CHR ''.'' f)) f @ CHR ''.'' # rsplit_dot_last f \<and>
         drop (nat (rfind CHR ''.'' f)) f = CHR ''.'' # rsplit_dot_last f \<and>
         CHR ''.'' \<notin> set (rsplit_dot_last f)"
proof -
  from split_list_last [OF assms] obtain ys zs
    where f: "f = ys @ CHR ''.'' # zs" and z: "CHR ''.'' \<notin> set zs"
    by blast
  have tw: "takeWhile (\<lambda>x. x \<noteq> CHR ''.'') (rev f) = rev zs"
    using z by (auto simp: f takeWhile_tail)
  have e: "rsplit_dot_last f = zs"
    by (simp add: rsplit_dot_last_def tw)
  have d: "nat (rfind CHR ''.'' f) = length ys"
    using assms by (simp add: rfind_def tw) (simp add: f)
  show ?thesis
    unfolding e d using z by (simp add: f)
qed

lemma splitext_shape:
  "splitext f = (take (nat (rfind CHR ''.'' f)) f, drop (nat (rfind CHR ''.'' f)) f) \<or>
   splitext f = (f, [])"
  unfolding splitext_def Let_def by (rule if_split [THEN iffD2]) blast

lemma splitext_append: "splitext f = (name, ext) \<Longrightarrow> name @ ext = f"
  using splitext_shape [of f] by auto

lemma allowed_extension_chars:
  assumes "py_lower e \<in> ALLOWED_IMAGE_EXTENSIONS"
  shows "e \<noteq> [] \<and> (\<forall>c \<in> set e. c \<notin> set ''-0123456789'')"
proof
  from assms show "e \<noteq> []"
    by (auto simp: py_lower_def ALLOWED_IMAGE_EXTENSIONS_def)
  have fix_digit: "py_lower_char c = c" if "c \<in> set ''-0123456789''" for c
    using that by (auto simp: py_lower_char_def)
  have letters: "py_lower_char c \<in> set ''pngjpegifwebp''" if "c \<in> set e" for c
  proof -
    from that have "py_lower_char c \<in> set (py_lower e)"
      by (simp add: py_lower_def)
    with assms show ?thesis
      by (auto simp: ALLOWED_IMAGE_EXTENSIONS_def)
  qed
  show "\<forall>c \<in> set e. c \<notin> set ''-0123456789''"
  proof
    fix c assume c: "c \<in> set e"
    show "c \<notin> set ''-0123456789''"
    proof
      assume d: "c \<in> set ''-0123456789''"
      from letters [OF c] fix_digit [OF d] have "c \<in> set ''pngjpegifwebp''"
        by simp
      with d show False by auto
    qed
  qed
qed

text \<open>The two shapes of the stored name of an allowed file.\<close>

lemma safe_name_shape:
  assumes "allowed_image f"
  shows "(\<exists>pre e. f = pre @ CHR ''.'' # e \<and> CHR ''.'' \<notin> set e \<and> e \<noteq> [] \<and>
           (\<forall>c \<in> set e. c \<notin> set ''-0123456789'') \<and>
           (\<forall>ts. safe_name f ts = (pre @ CHR ''_'' # str_int ts) @ CHR ''.'' # e)) \<or>
         (\<forall>ts. safe_name f ts = f @ CHR ''_'' # str_int ts)"
proof -
  from assms have dot: "CHR ''.'' \<in> set f" and ext: "py_lower (rsplit_dot_last f) \<in> ALLOWED_IMAGE_EXTENSIONS"
    by (simp_all add: allowed_image_def)
  note sp = last_dot_split [OF dot]
  note ch = allowed_extension_chars [OF ext]
  from splitext_shape [of f] show ?thesis
  proof
    assume "splitext f = (take (nat (rfind CHR ''.'' f)) f, drop (nat (rfind CHR ''.'' f)) f)"
    with sp have s: "splitext f = (take (nat (rfind CHR ''.'' f)) f, CHR ''.'' # rsplit_dot_last f)"
      by simp
    have "\<forall>ts. safe_name f ts =
            (take (nat (rfind CHR ''.'' f)) f @ CHR ''_'' # str_int ts) @ CHR ''.'' # rsplit_dot_last f"
      by (simp add: safe_name_def s)
    with sp ch
    have "\<exists>pre e. f = pre @ CHR ''.'' # e \<and> CHR ''.'' \<notin> set e \<and> e \<noteq> [] \<and>
           (\<forall>c \<in> set e. c \<notin> set ''-0123456789'') \<and>
           (\<forall>ts. safe_name f ts = (pre @ CHR ''_'' # str_int ts) @ CHR ''.'' # e)"
      by (intro exI [of _ "take (nat (rfind CHR ''.'' f)) f"] exI [of _ "rsplit_dot_last f"]) simp
    then show ?thesis ..
  next
    assume "splitext f = (f, [])"
    then have "\<forall>ts. safe_name f ts = f @ CHR ''_'' # str_int ts"
      by (simp add: safe_name_def)
    then show ?thesis ..
  qed
qed

lemma stem_eq:
  assumes "xs @ CHR ''_'' # str_int i = ys @ CHR ''_'' # str_int j"
  shows "xs = ys \<and> i = j"
  using split_at_last [OF underscore_not_in_str_int underscore_not_in_str_int assms]
  by (auto dest: str_int_inj)

lemma safe_name_inj:
  assumes "allowed_image f1" and "allowed_image f2" and "safe_name f1 t1 = safe_name f2 t2"
  shows "f1 = f2 \<and> t1 = t2"
proof -
  have mixed: False
    if "(pre @ CHR ''_'' # str_int i) @ CHR ''.'' # e = g @ CHR ''_'' # str_int j"
      and "e \<noteq> []" and "\<forall>c \<in> set e. c \<notin> set ''-0123456789''" for pre e g i j
  proof -
    from that(1)
    have "last ((pre @ CHR ''_'' # str_int i) @ CHR ''.'' # e) = last (g @ CHR ''_'' # str_int j)"
      by (rule arg_cong)
    then have "last e = last (str_int j)"
      using that(2) by (simp add: str_int_not_Nil)
    moreover from that(2,3) have "last e \<notin> set ''-0123456789''"
      using last_in_set by blast
    ultimately show False
      using last_str_int_digit [of j] by auto
  qed
  from safe_name_shape [OF assms(1)] show ?thesis
  proof (elim disjE exE conjE)
    fix pre1 e1
    assume f1: "f1 = pre1 @ CHR ''.'' # e1" and d1: "CHR ''.'' \<notin> set e1" and n1: "e1 \<noteq> []"
      and c1: "\<forall>c \<in> set e1. c \<notin> set ''-0123456789''"
      and s1: "\<forall>ts. safe_name f1 ts = (pre1 @ CHR ''_'' # str_int ts) @ CHR ''.'' # e1"
    from safe_name_shape [OF assms(2)] show ?thesis
    proof (elim disjE exE conjE)
      fix pre2 e2
      assume f2: "f2 = pre2 @ CHR ''.'' # e2" and d2: "CHR ''.'' \<notin> set e2"
        and s2: "\<forall>ts. safe_name f2 ts = (pre2 @ CHR ''_'' # str_int ts) @ CHR ''.'' # e2"
      from assms(3) s1 s2
      have "(pre1 @ CHR ''_'' # str_int t1) @ CHR ''.'' # e1 =
            (pre2 @ CHR ''_'' # str_int t2) @ CHR ''.'' # e2"
        by simp
      from split_at_last [OF d1 d2 this]
      have "pre1 @ CHR ''_'' # str_int t1 = pre2 @ CHR ''_'' # str_int t2" and "e1 = e2"
        by simp_all
      with stem_eq [of pre1 t1 pre2 t2] f1 f2 show ?thesis
        by simp
    next
      assume s2: "\<forall>ts. safe_name f2 ts = f2 @ CHR ''_'' # str_int ts"
      from assms(3) s1 s2
      have "(pre1 @ CHR ''_'' # str_int t1) @ CHR ''.'' # e1 = f2 @ CHR ''_'' # str_int t2"
        by simp
      from mixed [OF this n1 c1] show ?thesis ..
    qed
  next
    assume s1: "\<forall>ts. safe_name f1 ts = f1 @ CHR ''_'' # str_int ts"
    from safe_name_shape [OF assms(2)] show ?thesis
    proof (elim disjE exE conjE)
      fix pre2 e2
      assume n2: "e2 \<noteq> []" and c2: "\<forall>c \<in> set e2. c \<notin> set ''-0123456789''"
        and s2: "\<forall>ts. safe_name f2 ts = (pre2 @ CHR ''_'' # str_int ts) @ CHR ''.'' # e2"
      from assms(3) s1 s2
      have "(pre2 @ CHR ''_'' # str_int t2) @ CHR ''.'' # e2 = f1 @ CHR ''_'' # str_int t1"
        by simp
      from mixed [OF this n2 c2] show ?thesis ..
    next
      assume s2: "\<forall>ts. safe_name f2 ts = f2 @ CHR ''_'' # str_int ts"
      from assms(3) s1 s2 have "f1 @ CHR ''_'' # str_int t1 = f2 @ CHR ''_'' # str_int t2"
        by simp
      then show ?thesis
        by (rule stem_eq)
    qed
  qed
qed

lemma save_image_stores:
  assumes "filename f \<noteq> []" and "allowed_image (secure_filename env (filename f))"
  shows "save_image env (Some f) ts s =
           (''/static/uploads/'' @ safe_name (secure_filename env (filename f)) ts,
            s\<lparr>uploads := save_file (safe_name (secure_filename env (filename f)) ts) (stream f)
                            (uploads s)\<rparr>)"
  using assms by (simp add: save_image_def Let_def)

lemma map_of_save_file: "map_of (save_file path data fs) path = Some data"
  by (simp add: save_file_def)

text \<open>
  What \<^verbatim>\<open>save_image\<close> does apart from the case of C3 below. It returns the empty
  reference and leaves the state alone when there is no upload, when its file name is
  empty, and when \<^verbatim>\<open>allowed_image\<close> refuses the name \<^verbatim>\<open>secure_filename\<close> made of it.
  Otherwise, with \<open>(name, ext)\<close> the \<^verbatim>\<open>splitext\<close> of that name, it stores the contents
  under \<open>name_ts ext\<close> and returns that name behind \<^verbatim>\<open>/static/uploads/\<close>. Two stored
  uploads whose secured names differ, or whose calls fall in different seconds, get
  different references.
\<close>

lemma save_image_cases:
  "((fs = None \<or>
     (\<exists>f. fs = Some f \<and>
        (filename f = [] \<or> \<not> allowed_image (secure_filename env (filename f))))) \<longrightarrow>
      save_image env fs ts s = ([], s)) \<and>
   (\<forall>f. fs = Some f \<and> filename f \<noteq> [] \<and> allowed_image (secure_filename env (filename f)) \<longrightarrow>
      (\<exists>name ext.
         splitext (secure_filename env (filename f)) = (name, ext) \<and>
         name @ ext = secure_filename env (filename f) \<and>
         save_image env fs ts s =
           (''/static/uploads/'' @ name @ ''_'' @ str_int ts @ ext,
            s\<lparr>uploads := save_file (name @ ''_'' @ str_int ts @ ext) (stream f) (uploads s)\<rparr>) \<and>
         map_of (uploads (snd (save_image env fs ts s))) (name @ ''_'' @ str_int ts @ ext) =
           Some (stream f))) \<and>
   (\<forall>f1 f2 t1 t2 s1 s2.
      filename f1 \<noteq> [] \<and> allowed_image (secure_filename env (filename f1)) \<and>
      filename f2 \<noteq> [] \<and> allowed_image (secure_filename env (filename f2)) \<and>
      (secure_filename env (filename f1) \<noteq> secure_filename env (filename f2) \<or> t1 \<noteq> t2) \<longrightarrow>
      fst (save_image env (Some f1) t1 s1) \<noteq> fst (save_image env (Some f2) t2 s2))"
proof (intro conjI impI allI)
  assume "fs = None \<or>
     (\<exists>f. fs = Some f \<and>
        (filename f = [] \<or> \<not> allowed_image (secure_filename env (filename f))))"
  then show "save_image env fs ts s = ([], s)"
    by (auto simp: save_image_def Let_def)
next
  fix f
  assume h: "fs = Some f \<and> filename f \<noteq> [] \<and> allowed_image (secure_filename env (filename f))"
  obtain name ext where sp: "splitext (secure_filename env (filename f)) = (name, ext)"
    by (cases "splitext (secure_filename env (filename f))")
  then have sn: "safe_name (secure_filename env (filename f)) ts = name @ ''_'' @ str_int ts @ ext"
    by (simp add: safe_name_def)
  from h have "save_image env (Some f) ts s =
      (''/static/uploads/'' @ safe_name (secure_filename env (filename f)) ts,
       s\<lparr>uploads := save_file (safe_name (secure_filename env (filename f)) ts) (stream f)
                       (uploads s)\<rparr>)"
    by (intro save_image_stores) simp_all
  with h have run: "save_image env fs ts s =
      (''/static/uploads/'' @ name @ ''_'' @ str_int ts @ ext,
       s\<lparr>uploads := save_file (name @ ''_'' @ str_int ts @ ext) (stream f) (uploads s)\<rparr>)"
    unfolding sn by simp
  have stored: "map_of (uploads (snd (save_image env fs ts s))) (name @ ''_'' @ str_int ts @ ext) =
      Some (stream f)"
    unfolding run snd_conv by (simp add: map_of_save_file)
  from sp splitext_append [OF sp] run stored
  show "\<exists>name ext.
         splitext (secure_filename env (filename f)) = (name, ext) \<and>
         name @ ext = secure_filename env (filename f) \<and>
         save_image env fs ts s =
           (''/static/uploads/'' @ name @ ''_'' @ str_int ts @ ext,
            s\<lparr>uploads := save_file (name @ ''_'' @ str_int ts @ ext) (stream f) (uploads s)\<rparr>) \<and>
         map_of (uploads (snd (save_image env fs ts s))) (name @ ''_'' @ str_int ts @ ext) =
           Some (stream f)"
    by blast
next
  fix f1 f2 :: FileStorage and t1 t2 :: int and s1 s2 :: state
  assume h: "filename f1 \<noteq> [] \<and> allowed_image (secure_filename env (filename f1)) \<and>
      filename f2 \<noteq> [] \<and> allowed_image (secure_filename env (filename f2)) \<and>
      (secure_filename env (filename f1) \<noteq> secure_filename env (filename f2) \<or> t1 \<noteq> t2)"
  then have p1: "fst (save_image env (Some f1) t1 s1) =
      ''/static/uploads/'' @ safe_name (secure_filename env (filename f1)) t1"
    and p2: "fst (save_image env (Some f2) t2 s2) =
      ''/static/uploads/'' @ safe_name (secure_filename env (filename f2)) t2"
    by (simp_all add: save_image_stores)
  show "fst (save_image env (Some f1) t1 s1) \<noteq> fst (save_image env (Some f2) t2 s2)"
  proof
    assume "fst (save_image env (Some f1) t1 s1) = fst (save_image env (Some f2) t2 s2)"
    then have "safe_name (secure_filename env (filename f1)) t1 =
               safe_name (secure_filename env (filename f2)) t2"
      unfolding p1 p2 by (rule same_append_eq [THEN iffD1])
    with h show False
      using safe_name_inj by blast
  qed
qed

lemma upload_facts:
  "filename cat_one \<noteq> []" "filename cat_two \<noteq> []" "filename malware \<noteq> []"
  "secure_filename example_env (filename cat_one) = ''cat.png''"
  "secure_filename example_env (filename cat_two) = ''cat.png''"
  "secure_filename example_env (filename malware) = ''malware.exe''"
  "stream cat_one = ''one''" "stream cat_two = ''two''"
  by (simp_all add: cat_one_def cat_two_def malware_def example_env_def)

lemma allowed_image_cat: "allowed_image ''cat.png''"
  by (simp add: allowed_image_def rsplit_dot_last_def py_lower_def py_lower_char_def
      ALLOWED_IMAGE_EXTENSIONS_def)

lemma not_allowed_image_exe: "\<not> allowed_image ''malware.exe''"
  by (simp add: allowed_image_def rsplit_dot_last_def py_lower_def py_lower_char_def
      ALLOWED_IMAGE_EXTENSIONS_def)

lemma splitext_cat: "splitext ''cat.png'' = (''cat'', ''.png'')"
  by (simp add: splitext_def rfind_def Let_def)

lemma str_nat_lt10: "n < 10 \<Longrightarrow> str_nat n = [digit_char n]"
  by (subst str_nat.simps) simp

lemma str_nat_ge10: "\<not> n < 10 \<Longrightarrow> str_nat n = str_nat (n div 10) @ [digit_char (n mod 10)]"
  by (subst str_nat.simps) simp

lemma str_int_1700000000: "str_int 1700000000 = ''1700000000''"
  by (simp add: str_int_def str_nat_lt10 str_nat_ge10 digit_char_def)

lemma save_cat_one:
  "save_image example_env (Some cat_one) 1700000000 s =
     (''/static/uploads/cat_1700000000.png'',
      s\<lparr>uploads := save_file ''cat_1700000000.png'' ''one'' (uploads s)\<rparr>)"
  unfolding save_image_stores [of cat_one example_env, unfolded upload_facts, OF upload_facts(1) allowed_image_cat]
  by (simp add: safe_name_def splitext_cat str_int_1700000000 upload_facts)

lemma save_cat_two:
  "save_image example_env (Some cat_two) 1700000000 s =
     (''/static/uploads/cat_1700000000.png'',
      s\<lparr>uploads := save_file ''cat_1700000000.png'' ''two'' (uploads s)\<rparr>)"
  unfolding save_image_stores [of cat_two example_env, unfolded upload_facts, OF upload_facts(2) allowed_image_cat]
  by (simp add: safe_name_def splitext_cat str_int_1700000000 upload_facts)

text \<open>
  C3. Two uploads named \<open>cat.png\<close> arrive in the same second. \<^verbatim>\<open>allowed_image\<close> accepts
  both, both calls of \<^verbatim>\<open>save_image\<close> return the reference
  \<open>/static/uploads/cat_1700000000.png\<close>, and after the second call the one file stored
  under that name holds the second upload: the first is overwritten.
\<close>

theorem save_image_same_second_collision:
  "allowed_image (secure_filename example_env (filename cat_one)) \<and>
   allowed_image (secure_filename example_env (filename cat_two)) \<and>
   fst (save_image example_env (Some cat_one) 1700000000 s_alice) =
     ''/static/uploads/cat_1700000000.png'' \<and>
   fst (save_image example_env (Some cat_two) 1700000000
          (snd (save_image example_env (Some cat_one) 1700000000 s_alice))) =
     ''/static/uploads/cat_1700000000.png'' \<and>
   uploads (snd (save_image example_env (Some cat_two) 1700000000
                   (snd (save_image example_env (Some cat_one) 1700000000 s_alice)))) =
     [(''cat_1700000000.png'', ''two'')]"
  unfolding save_cat_one save_cat_two fst_conv snd_conv
  by (simp add: upload_facts allowed_image_cat save_file_def s_alice_def)

end
